theory Spec2Isabelle
  imports Main "HOL-Library.Sublist"
begin

section \<open>Strings\<close>

text \<open>
  A JavaScript string is a sequence of UTF-16 code units. It is modelled as a
  \<^typ>\<open>string\<close>, one \<^typ>\<open>char\<close> per code unit, which covers the code units
  below 256 (ASCII and Latin-1). The built-in string methods the program calls are
  written out for these code units.
\<close>

text \<open>White space as \<^verbatim>\<open>String.prototype.trim\<close> and the white space class
  of regular expressions read it: tab, line feed, vertical tab, form feed, carriage return, space
  and the no-break space.\<close>

definition isWhiteSpace :: "char \<Rightarrow> bool" where
  "isWhiteSpace c = (of_char c \<in> {9, 10, 11, 12, 13, 32, 160 :: nat})"

definition trim :: "string \<Rightarrow> string" where
  "trim s = rev (dropWhile isWhiteSpace (rev (dropWhile isWhiteSpace s)))"

text \<open>\<^verbatim>\<open>toLowerCase\<close>: the letters A to Z, and the Latin-1 capitals 192 to 222
  without the multiplication sign 215, move up by 32.\<close>

definition lowerChar :: "char \<Rightarrow> char" where
  "lowerChar c =
     (let n = (of_char c :: nat) in
      if (65 \<le> n \<and> n \<le> 90) \<or> (192 \<le> n \<and> n \<le> 222 \<and> n \<noteq> 215)
      then char_of (n + 32) else c)"

definition toLowerCase :: "string \<Rightarrow> string" where
  "toLowerCase s = map lowerChar s"

text \<open>\<^verbatim>\<open>text.includes(pat)\<close>: \<open>pat\<close> occurs in \<open>text\<close> as a contiguous
  substring; the empty string occurs in every string.\<close>

fun includes_str :: "string \<Rightarrow> string \<Rightarrow> bool" where
  "includes_str [] pat = (pat = [])"
| "includes_str (c # cs) pat = (prefix pat (c # cs) \<or> includes_str cs pat)"

section \<open>The allow/deny classifier (FilterManager)\<close>

subsection \<open>Data\<close>

text \<open>A \<^verbatim>\<open>Date\<close> is its time value, the milliseconds since the epoch. The clock
  (\<^verbatim>\<open>new Date()\<close>, \<^verbatim>\<open>Date.now()\<close>) is read once per operation and passed in as
  \<open>now\<close>.\<close>

type_synonym date = int

text \<open>A deny entry is \<^verbatim>\<open>string | { item: string; expiresAt: Date | null }\<close>.\<close>

datatype blackItem =
  Str string
| Obj string "date option"

record Filter =
  filterId :: string
  blackList :: "blackItem list"
  whiteList :: "string list"
  createdAt :: date
  updatedAt :: date
  isActive :: bool

text \<open>The fields of \<^verbatim>\<open>CheckOptions\<close> are optional; \<open>None\<close> is a field left
  undefined.\<close>

record CheckOptions =
  caseSensitive :: "bool option"
  exactMatch :: "bool option"
  partialMatch :: "bool option"

datatype reason = Blacklist | Whitelist | NoReason

text \<open>The message \<^verbatim>\<open>`Blocked until ${expiresAt.toLocaleString()}`\<close>; the rendering
  of the date depends on the locale of the host and is kept symbolic.\<close>

datatype expirationMessage = BlockedUntil date

record CheckResult =
  isAllowed :: bool
  isBlocked :: bool
  matchedBlackList :: "blackItem list"
  matchedWhiteList :: "string list"
  reason :: reason
  expirationReason :: "expirationMessage option"

subsection \<open>Helpers\<close>

fun normalizeItem :: "blackItem \<Rightarrow> string" where
  "normalizeItem (Str s) = trim s"
| "normalizeItem (Obj s e) = trim s"

text \<open>\<^verbatim>\<open>isItemExpired\<close> takes the object form of an entry.\<close>

fun isItemExpired :: "date \<Rightarrow> string \<times> date option \<Rightarrow> bool" where
  "isItemExpired now (s, None) = False"
| "isItemExpired now (s, Some e) = (now > e)"

text \<open>The test \<^verbatim>\<open>typeof item !== 'string' && this.isItemExpired(item)\<close>.\<close>

fun expiredEntry :: "date \<Rightarrow> blackItem \<Rightarrow> bool" where
  "expiredEntry now (Str s) = False"
| "expiredEntry now (Obj s e) = isItemExpired now (s, e)"

subsection \<open>checkString\<close>

text \<open>The three locals the loops of \<^verbatim>\<open>checkString\<close> write to.\<close>

record scanState =
  matchedBlack :: "blackItem list"
  matchedWhite :: "string list"
  expReason :: "expirationMessage option"

text \<open>The comparison both loops make: \<^verbatim>\<open>matches\<close> starts false, is the equality
  under \<^verbatim>\<open>exactMatch\<close>, else the containment under \<^verbatim>\<open>partialMatch\<close>.\<close>

definition matchesText :: "bool \<Rightarrow> bool \<Rightarrow> string \<Rightarrow> string \<Rightarrow> bool" where
  "matchesText exact partial processedText processedItem =
     (if exact then processedText = processedItem
      else if partial then includes_str processedText processedItem
      else False)"

definition processedBlackItem :: "bool \<Rightarrow> blackItem \<Rightarrow> string" where
  "processedBlackItem cs b = (if cs then normalizeItem b else toLowerCase (normalizeItem b))"

definition processedWhiteItem :: "bool \<Rightarrow> string \<Rightarrow> string" where
  "processedWhiteItem cs w = (if cs then w else toLowerCase w)"

text \<open>One round of the loop over \<^verbatim>\<open>filter.blackList\<close>.\<close>

definition blackStep ::
  "date \<Rightarrow> bool \<Rightarrow> bool \<Rightarrow> bool \<Rightarrow> string \<Rightarrow> scanState \<Rightarrow> blackItem \<Rightarrow> scanState" where
  "blackStep now cs exact partial processedText st b =
     (if expiredEntry now b then st
      else if matchesText exact partial processedText (processedBlackItem cs b)
      then st\<lparr>matchedBlack := matchedBlack st @ [b],
              expReason := (case b of
                              Obj s (Some e) \<Rightarrow> Some (BlockedUntil e)
                            | _ \<Rightarrow> expReason st)\<rparr>
      else st)"

text \<open>One round of the loop over \<^verbatim>\<open>filter.whiteList\<close>.\<close>

definition whiteStep :: "bool \<Rightarrow> bool \<Rightarrow> bool \<Rightarrow> string \<Rightarrow> scanState \<Rightarrow> string \<Rightarrow> scanState" where
  "whiteStep cs exact partial processedText st w =
     (if matchesText exact partial processedText (processedWhiteItem cs w)
      then st\<lparr>matchedWhite := matchedWhite st @ [w]\<rparr>
      else st)"

text \<open>The body of the outer loop, for one active filter.\<close>

definition filterStep ::
  "date \<Rightarrow> bool \<Rightarrow> bool \<Rightarrow> bool \<Rightarrow> string \<Rightarrow> scanState \<Rightarrow> Filter \<Rightarrow> scanState" where
  "filterStep now cs exact partial processedText st f =
     foldl (whiteStep cs exact partial processedText)
       (foldl (blackStep now cs exact partial processedText) st (blackList f))
       (whiteList f)"

definition scanFilters ::
  "date \<Rightarrow> bool \<Rightarrow> bool \<Rightarrow> bool \<Rightarrow> string \<Rightarrow> Filter list \<Rightarrow> scanState" where
  "scanFilters now cs exact partial processedText fs =
     foldl (filterStep now cs exact partial processedText)
       \<lparr>matchedBlack = [], matchedWhite = [], expReason = None\<rparr>
       (filter isActive fs)"

text \<open>The destructuring defaults of \<^verbatim>\<open>checkString\<close>:
  \<^verbatim>\<open>caseSensitive = false, exactMatch = false, partialMatch = true\<close>.\<close>

definition caseSensitiveOf :: "CheckOptions \<Rightarrow> bool" where
  "caseSensitiveOf options = (case caseSensitive options of None \<Rightarrow> False | Some b \<Rightarrow> b)"

definition exactMatchOf :: "CheckOptions \<Rightarrow> bool" where
  "exactMatchOf options = (case exactMatch options of None \<Rightarrow> False | Some b \<Rightarrow> b)"

definition partialMatchOf :: "CheckOptions \<Rightarrow> bool" where
  "partialMatchOf options = (case partialMatch options of None \<Rightarrow> True | Some b \<Rightarrow> b)"

definition processedTextOf :: "CheckOptions \<Rightarrow> string \<Rightarrow> string" where
  "processedTextOf options txt = (if caseSensitiveOf options then txt else toLowerCase txt)"

definition checkString :: "date \<Rightarrow> Filter list \<Rightarrow> string \<Rightarrow> CheckOptions \<Rightarrow> CheckResult" where
  "checkString now fs txt options =
     (let st = scanFilters now (caseSensitiveOf options) (exactMatchOf options)
                 (partialMatchOf options) (processedTextOf options txt) fs
      in if matchedWhite st \<noteq> [] then
           \<lparr>isAllowed = True, isBlocked = False,
            matchedBlackList = matchedBlack st, matchedWhiteList = matchedWhite st,
            reason = Whitelist, expirationReason = None\<rparr>
         else if matchedBlack st \<noteq> [] then
           \<lparr>isAllowed = False, isBlocked = True,
            matchedBlackList = matchedBlack st, matchedWhiteList = matchedWhite st,
            reason = Blacklist, expirationReason = expReason st\<rparr>
         else
           \<lparr>isAllowed = True, isBlocked = False,
            matchedBlackList = matchedBlack st, matchedWhiteList = matchedWhite st,
            reason = NoReason, expirationReason = None\<rparr>)"

subsection \<open>The table and its mutations\<close>

text \<open>The state of a \<^verbatim>\<open>FilterManager\<close>: the table \<^verbatim>\<open>this.filters\<close>, and the
  tables handed to \<^verbatim>\<open>dataStorage.save\<close> so far, oldest first.\<close>

record FilterManager =
  filters :: "Filter list"
  saved :: "Filter list list"

definition saveFilters :: "FilterManager \<Rightarrow> FilterManager" where
  "saveFilters m = m\<lparr>saved := saved m @ [filters m]\<rparr>"

text \<open>\<^verbatim>\<open>Array.prototype.findIndex\<close>: the index of the first element that satisfies
  \<open>P\<close>; \<open>None\<close> stands for the result \<open>-1\<close>.\<close>

fun findIndex :: "('a \<Rightarrow> bool) \<Rightarrow> 'a list \<Rightarrow> nat option" where
  "findIndex P [] = None"
| "findIndex P (x # xs) = (if P x then Some 0 else map_option Suc (findIndex P xs))"

definition getFilter :: "string \<Rightarrow> FilterManager \<Rightarrow> Filter option" where
  "getFilter fid m = find (\<lambda>f. filterId f = fid) (filters m)"

text \<open>The frame the mutators share: \<^verbatim>\<open>this.filters.find(f => f.id === id)\<close>, the
  result \<^verbatim>\<open>false\<close> when there is none, else the change \<open>g\<close> made in place on the
  filter found (the first with that id), \<^verbatim>\<open>saveFilters()\<close> and the result
  \<^verbatim>\<open>true\<close>.\<close>

definition mutateFilter ::
  "string \<Rightarrow> (Filter \<Rightarrow> Filter) \<Rightarrow> FilterManager \<Rightarrow> bool \<times> FilterManager" where
  "mutateFilter fid g m =
     (case findIndex (\<lambda>f. filterId f = fid) (filters m) of
        None \<Rightarrow> (False, m)
      | Some i \<Rightarrow> (True, saveFilters (m\<lparr>filters := (filters m)[i := g (filters m ! i)]\<rparr>)))"

definition createFilter ::
  "date \<Rightarrow> string list \<Rightarrow> string list \<Rightarrow> FilterManager \<Rightarrow> Filter \<times> FilterManager" where
  "createFilter now bl wl m =
     (let newFilter =
            \<lparr>filterId = ''default'',
             blackList = map (\<lambda>item. Str (trim item)) bl,
             whiteList = map trim wl,
             createdAt = now, updatedAt = now, isActive = True\<rparr>
      in (newFilter, saveFilters (m\<lparr>filters := filters m @ [newFilter]\<rparr>)))"

definition updateFilter ::
  "date \<Rightarrow> string \<Rightarrow> string list option \<Rightarrow> string list option \<Rightarrow> FilterManager
     \<Rightarrow> bool \<times> FilterManager" where
  "updateFilter now fid bl wl m =
     mutateFilter fid
       (\<lambda>f. let f1 = (case bl of None \<Rightarrow> f
                                | Some b \<Rightarrow> f\<lparr>blackList := map (\<lambda>item. Str (trim item)) b\<rparr>);
                 f2 = (case wl of None \<Rightarrow> f1 | Some w \<Rightarrow> f1\<lparr>whiteList := map trim w\<rparr>)
             in f2\<lparr>updatedAt := now\<rparr>) m"

text \<open>The items \<^verbatim>\<open>addToBlackList\<close> builds: \<^verbatim>\<open>expiresInSeconds\<close> is a number or
  \<^verbatim>\<open>null\<close>, and both \<^verbatim>\<open>null\<close> and \<open>0\<close> are falsy, which gives a permanent
  string entry.\<close>

definition newBlackListItem :: "date \<Rightarrow> int option \<Rightarrow> string \<Rightarrow> blackItem" where
  "newBlackListItem now expiresInSeconds item =
     (case expiresInSeconds of
        None \<Rightarrow> Str (trim item)
      | Some secs \<Rightarrow> if secs = 0 then Str (trim item)
                    else Obj (trim item) (Some (now + secs * 1000)))"

text \<open>The de-duplication of \<^verbatim>\<open>addToBlackList\<close>:
  \<^verbatim>\<open>.filter((value, index, self) => index === self.findIndex(t => normalizeItem(t) === normalizeItem(value)))\<close>.\<close>

definition dedupeBlackList :: "blackItem list \<Rightarrow> blackItem list" where
  "dedupeBlackList self =
     map snd (filter (\<lambda>(index, v).
                 Some index = findIndex (\<lambda>t. normalizeItem t = normalizeItem v) self)
               (enumerate 0 self))"

definition addToBlackList ::
  "date \<Rightarrow> string \<Rightarrow> string list \<Rightarrow> int option \<Rightarrow> FilterManager \<Rightarrow> bool \<times> FilterManager" where
  "addToBlackList now fid items expiresInSeconds m =
     mutateFilter fid
       (\<lambda>f. f\<lparr>blackList :=
                 dedupeBlackList (blackList f @ map (newBlackListItem now expiresInSeconds) items),
               updatedAt := now\<rparr>) m"

definition addToWhiteList ::
  "date \<Rightarrow> string \<Rightarrow> string list \<Rightarrow> FilterManager \<Rightarrow> bool \<times> FilterManager" where
  "addToWhiteList now fid items m =
     mutateFilter fid
       (\<lambda>f. f\<lparr>whiteList :=
                 whiteList f @ filter (\<lambda>item. item \<notin> set (whiteList f)) (map trim items),
               updatedAt := now\<rparr>) m"

definition removeFromBlackList ::
  "date \<Rightarrow> string \<Rightarrow> string list \<Rightarrow> FilterManager \<Rightarrow> bool \<times> FilterManager" where
  "removeFromBlackList now fid items m =
     mutateFilter fid
       (\<lambda>f. f\<lparr>blackList :=
                 filter (\<lambda>blackItem.
                    \<not> list_ex (\<lambda>removeItem. normalizeItem blackItem = trim removeItem) items)
                   (blackList f),
               updatedAt := now\<rparr>) m"

definition removeFromWhiteList ::
  "date \<Rightarrow> string \<Rightarrow> string list \<Rightarrow> FilterManager \<Rightarrow> bool \<times> FilterManager" where
  "removeFromWhiteList now fid items m =
     mutateFilter fid
       (\<lambda>f. f\<lparr>whiteList :=
                 filter (\<lambda>whiteItem. \<not> list_ex (\<lambda>removeItem. whiteItem = trim removeItem) items)
                   (whiteList f),
               updatedAt := now\<rparr>) m"

definition toggleFilter ::
  "date \<Rightarrow> string \<Rightarrow> bool option \<Rightarrow> FilterManager \<Rightarrow> bool \<times> FilterManager" where
  "toggleFilter now fid active m =
     mutateFilter fid
       (\<lambda>f. f\<lparr>isActive := (case active of Some a \<Rightarrow> a | None \<Rightarrow> \<not> isActive f),
               updatedAt := now\<rparr>) m"

definition deleteFilter :: "string \<Rightarrow> FilterManager \<Rightarrow> bool \<times> FilterManager" where
  "deleteFilter fid m =
     (case findIndex (\<lambda>f. filterId f = fid) (filters m) of
        None \<Rightarrow> (False, m)
      | Some i \<Rightarrow>
          (True, saveFilters (m\<lparr>filters := take i (filters m) @ drop (Suc i) (filters m)\<rparr>)))"

subsection \<open>The expiry sweep\<close>

text \<open>The callback of \<^verbatim>\<open>filter.blackList.filter\<close> in the sweep: it drops an expired
  object entry and, as a side effect, sets the flag \<^verbatim>\<open>changed\<close>. The list built so far
  and the flag are threaded through the entries.\<close>

definition sweepEntry :: "date \<Rightarrow> blackItem list \<times> bool \<Rightarrow> blackItem \<Rightarrow> blackItem list \<times> bool" where
  "sweepEntry now acc item =
     (if expiredEntry now item then (fst acc, True) else (fst acc @ [item], snd acc))"

text \<open>The body of \<^verbatim>\<open>this.filters.forEach\<close>, on one filter and the flag.\<close>

definition sweepFilter :: "date \<Rightarrow> Filter list \<times> bool \<Rightarrow> Filter \<Rightarrow> Filter list \<times> bool" where
  "sweepFilter now acc f =
     (let initialLength = length (blackList f);
          kept = foldl (sweepEntry now) ([], snd acc) (blackList f);
          f1 = f\<lparr>blackList := fst kept\<rparr>
      in if length (fst kept) < initialLength
         then (fst acc @ [f1\<lparr>updatedAt := now\<rparr>], True)
         else (fst acc @ [f1], snd kept))"

definition cleanExpiredBlacklistItems :: "date \<Rightarrow> FilterManager \<Rightarrow> FilterManager" where
  "cleanExpiredBlacklistItems now m =
     (let swept = foldl (sweepFilter now) ([], False) (filters m);
          m1 = m\<lparr>filters := fst swept\<rparr>
      in if snd swept then saveFilters m1 else m1)"

subsection \<open>What a check matches\<close>

text \<open>The notions the properties of \<^verbatim>\<open>checkString\<close> are stated with: the expiry an
  entry carries, the last expiry carried in a list of entries, the test the deny loop
  makes on one entry (not expired, and matching in the mode of the options), the test the
  allow loop makes, and the entries of the active filters that pass each test, in the order
  the loops visit them.\<close>

fun expiryOf :: "blackItem \<Rightarrow> date option" where
  "expiryOf (Str s) = None"
| "expiryOf (Obj s e) = e"

definition lastExpiry :: "blackItem list \<Rightarrow> date option" where
  "lastExpiry bs =
     (let ys = filter (\<lambda>b. expiryOf b \<noteq> None) bs
      in if ys = [] then None else expiryOf (last ys))"

text \<open>The message after a scan of the entries \<open>bs\<close> that started with the message
  \<open>r\<close>.\<close>

definition carry :: "expirationMessage option \<Rightarrow> blackItem list \<Rightarrow> expirationMessage option" where
  "carry r bs = (case lastExpiry bs of None \<Rightarrow> r | Some e \<Rightarrow> Some (BlockedUntil e))"

definition denyMatch :: "date \<Rightarrow> CheckOptions \<Rightarrow> string \<Rightarrow> blackItem \<Rightarrow> bool" where
  "denyMatch now options txt b =
     (\<not> expiredEntry now b \<and>
      matchesText (exactMatchOf options) (partialMatchOf options) (processedTextOf options txt)
        (processedBlackItem (caseSensitiveOf options) b))"

definition allowMatch :: "CheckOptions \<Rightarrow> string \<Rightarrow> string \<Rightarrow> bool" where
  "allowMatch options txt w =
     matchesText (exactMatchOf options) (partialMatchOf options) (processedTextOf options txt)
        (processedWhiteItem (caseSensitiveOf options) w)"

definition denyMatches :: "date \<Rightarrow> CheckOptions \<Rightarrow> string \<Rightarrow> Filter list \<Rightarrow> blackItem list" where
  "denyMatches now options txt fs =
     concat (map (\<lambda>f. filter (denyMatch now options txt) (blackList f)) (filter isActive fs))"

definition allowMatches :: "CheckOptions \<Rightarrow> string \<Rightarrow> Filter list \<Rightarrow> string list" where
  "allowMatches options txt fs =
     concat (map (\<lambda>f. filter (allowMatch options txt) (whiteList f)) (filter isActive fs))"

text \<open>A filter without those of its expired deny entries that \<open>gone\<close> selects.\<close>

definition withoutEntries :: "(blackItem \<Rightarrow> bool) \<Rightarrow> date \<Rightarrow> Filter \<Rightarrow> Filter" where
  "withoutEntries gone now f =
     f\<lparr>blackList := filter (\<lambda>b. \<not> (gone b \<and> expiredEntry now b)) (blackList f)\<rparr>"

text \<open>The options object \<^verbatim>\<open>{}\<close>: every field left undefined.\<close>

definition noOptions :: CheckOptions where
  "noOptions = \<lparr>caseSensitive = None, exactMatch = None, partialMatch = None\<rparr>"

subsection \<open>What the de-duplication keeps\<close>

text \<open>A left-to-right pass that keeps an entry when its trimmed text has not been seen
  before; \<^verbatim>\<open>addToBlackList\<close>'s index comparison is shown to compute it.\<close>

fun keepFirst :: "string list \<Rightarrow> blackItem list \<Rightarrow> blackItem list" where
  "keepFirst seen [] = []"
| "keepFirst seen (v # vs) =
     (if normalizeItem v \<in> set seen then keepFirst seen vs
      else v # keepFirst (normalizeItem v # seen) vs)"

subsection \<open>What a mutator changes\<close>

text \<open>A list with the change \<open>g\<close> made on its first element that satisfies \<open>P\<close>, and a
  list without its first element that satisfies \<open>P\<close>; the index arithmetic of the mutators
  and of \<^verbatim>\<open>deleteFilter\<close> is shown to compute them.\<close>

fun changeFirst :: "('a \<Rightarrow> bool) \<Rightarrow> ('a \<Rightarrow> 'a) \<Rightarrow> 'a list \<Rightarrow> 'a list" where
  "changeFirst P g [] = []"
| "changeFirst P g (x # xs) = (if P x then g x # xs else x # changeFirst P g xs)"

fun removeFirst :: "('a \<Rightarrow> bool) \<Rightarrow> 'a list \<Rightarrow> 'a list" where
  "removeFirst P [] = []"
| "removeFirst P (x # xs) = (if P x then xs else x # removeFirst P xs)"

subsection \<open>What the sweep leaves\<close>

text \<open>The sweep's effect on one filter, and the test whether a table holds an expired
  deny entry; the loops of the sweep are shown to compute them.\<close>

definition purgeFilter :: "date \<Rightarrow> Filter \<Rightarrow> Filter" where
  "purgeFilter now f =
     (if list_ex (expiredEntry now) (blackList f)
      then f\<lparr>blackList := filter (\<lambda>b. \<not> expiredEntry now b) (blackList f), updatedAt := now\<rparr>
      else f)"

definition anyExpired :: "date \<Rightarrow> Filter list \<Rightarrow> bool" where
  "anyExpired now fs = list_ex (\<lambda>f. list_ex (expiredEntry now) (blackList f)) fs"

section \<open>The template substitution engine (ConfigurableReplacer)\<close>

subsection \<open>Data\<close>

record ReplacementOption =
  dataKey :: string
  defaultValue :: string

text \<open>\<^verbatim>\<open>ReplacementConfig\<close> is an object from patterns to options. The program reads it
  with \<^verbatim>\<open>Object.entries\<close> only, so it is held as the list of entries in the order
  \<^verbatim>\<open>Object.entries\<close> yields them: for keys that are not array indices, the order in
  which the object literal declares them.\<close>

type_synonym ReplacementConfig = "(string \<times> ReplacementOption) list"

record Config =
  instanceId :: string
  replacements :: ReplacementConfig
  removeBackslashes :: bool
  useLocalStorage :: bool
  localStorageKeys :: "(string \<times> string list) list"

text \<open>\<^verbatim>\<open>ReplacementData\<close> maps a key to a string or a number; a key that is absent or
  holds \<^verbatim>\<open>undefined\<close> is \<open>None\<close>. The program reads a value only through
  \<^verbatim>\<open>String(...)\<close>, and the printing of a floating-point number is not modelled: a number
  is held by the text that \<^verbatim>\<open>String\<close> prints for it (\<^verbatim>\<open>7\<close>, \<^verbatim>\<open>0.5\<close>,
  \<^verbatim>\<open>1e+21\<close>). The data are read by their own keys only; a key such as
  \<^verbatim>\<open>constructor\<close>, which a JavaScript object inherits, is not in the model.\<close>

datatype dataValue = DString string | DNumber string

type_synonym ReplacementData = "string \<rightharpoonup> dataValue"


subsection \<open>Coercion to a string\<close>

fun String :: "dataValue \<Rightarrow> string" where
  "String (DString s) = s"
| "String (DNumber printed) = printed"

subsection \<open>Replacing every occurrence of a literal\<close>

text \<open>
  \<^verbatim>\<open>text.replace(new RegExp(this.escapeRegExp(pattern), "g"), value)\<close>. The escaped
  pattern matches the pattern's characters literally and has no capture group. The second
  argument is a string, so \<^verbatim>\<open>replace\<close> expands the dollar forms in it for every match:
  two dollars give one dollar, dollar-ampersand the matched text, dollar-backtick the part
  of the subject before the match, dollar-apostrophe the part after it; a dollar before
  anything else (a digit too, as there is no capture group) stays as it is.
\<close>

fun getSubstitution :: "string \<Rightarrow> string \<Rightarrow> string \<Rightarrow> string \<Rightarrow> string" where
  "getSubstitution matched preceding following [] = []"
| "getSubstitution matched preceding following [c] = [c]"
| "getSubstitution matched preceding following (c # d # template) =
     (if c = CHR ''$'' \<and> d = CHR ''$'' then CHR ''$'' # getSubstitution matched preceding following template
      else if c = CHR ''$'' \<and> d = CHR ''&'' then matched @ getSubstitution matched preceding following template
      else if c = CHR ''$'' \<and> d = CHR 0x60 then preceding @ getSubstitution matched preceding following template
      else if c = CHR ''$'' \<and> d = CHR 0x27 then following @ getSubstitution matched preceding following template
      else c # getSubstitution matched preceding following (d # template))"

text \<open>The scan for a non-empty pattern: \<open>preceding\<close> is the part of the subject already
  passed. At a match the expansion of the value is emitted and the scan goes on behind the
  match, so what was emitted is not scanned; elsewhere one character is copied.\<close>

fun replaceFrom :: "string \<Rightarrow> string \<Rightarrow> string \<Rightarrow> string \<Rightarrow> string" where
  "replaceFrom pat val preceding [] = []"
| "replaceFrom pat val preceding (c # cs) =
     (if prefix pat (c # cs)
      then getSubstitution pat preceding (drop (length pat - 1) cs) val
             @ replaceFrom pat val (preceding @ pat) (drop (length pat - 1) cs)
      else c # replaceFrom pat val (preceding @ [c]) cs)"

text \<open>The empty pattern gives the expression that matches the empty string at every
  position, the end of the subject included.\<close>

fun replaceEmpty :: "string \<Rightarrow> string \<Rightarrow> string \<Rightarrow> string" where
  "replaceEmpty val preceding [] = getSubstitution [] preceding [] val"
| "replaceEmpty val preceding (c # cs) =
     getSubstitution [] preceding (c # cs) val @ c # replaceEmpty val (preceding @ [c]) cs"

definition replaceAllLiteral :: "string \<Rightarrow> string \<Rightarrow> string \<Rightarrow> string" where
  "replaceAllLiteral pat val subject =
     (if pat = [] then replaceEmpty val [] subject else replaceFrom pat val [] subject)"

subsection \<open>The pieces of one pass\<close>




subsection \<open>replace\<close>

text \<open>\<^verbatim>\<open>String(data[dataKey] === undefined ? defaultValue : data[dataKey])\<close>.\<close>

definition replaceValue :: "ReplacementData \<Rightarrow> ReplacementOption \<Rightarrow> string" where
  "replaceValue data options =
     (case data (dataKey options) of None \<Rightarrow> defaultValue options | Some v \<Rightarrow> String v)"

text \<open>The \<^verbatim>\<open>forEach\<close> over the entries: each round replaces the current text.\<close>

definition applyReplacements :: "ReplacementConfig \<Rightarrow> ReplacementData \<Rightarrow> string \<Rightarrow> string" where
  "applyReplacements entries data subject =
     foldl (\<lambda>replacedText entry.
              replaceAllLiteral (fst entry) (replaceValue data (snd entry)) replacedText)
       subject entries"

definition stripBackslashes :: "Config \<Rightarrow> string \<Rightarrow> string" where
  "stripBackslashes config s =
     (if removeBackslashes config then filter (\<lambda>c. c \<noteq> CHR 0x5C) s else s)"

definition replaceInString :: "Config \<Rightarrow> string \<Rightarrow> ReplacementData \<Rightarrow> string" where
  "replaceInString config subject data =
     stripBackslashes config (applyReplacements (replacements config) data subject)"



subsection \<open>The tracking variant, on a string\<close>

text \<open>\<^verbatim>\<open>ReplacementMapping\<close>, its fields \<^verbatim>\<open>original\<close>, \<^verbatim>\<open>dataKey\<close> and
  \<^verbatim>\<open>replaced\<close>.\<close>

record ReplacementMapping =
  originalPattern :: string
  mappedDataKey :: string
  replacedValue :: string

text \<open>\<^verbatim>\<open>Map.prototype.set\<close> on a map held as the list of its entries in insertion order:
  a key already there keeps its place and takes the new value.\<close>

fun mapSet :: "string \<Rightarrow> ReplacementMapping \<Rightarrow> (string \<times> ReplacementMapping) list
    \<Rightarrow> (string \<times> ReplacementMapping) list" where
  "mapSet k v [] = [(k, v)]"
| "mapSet k v (kv # rest) = (if fst kv = k then (k, v) # rest else kv # mapSet k v rest)"

text \<open>
  One round of the \<^verbatim>\<open>forEach\<close> of \<^verbatim>\<open>replaceInStringWithTracking\<close>. The loop
  \<^verbatim>\<open>while ((match = trackingRegex.exec(text)) !== null)\<close> runs once per occurrence of the
  pattern in the original text and sets the same map entry each time. With the empty
  pattern \<^verbatim>\<open>exec\<close> matches the empty string without moving \<^verbatim>\<open>lastIndex\<close> and the loop
  does not end: the round returns \<open>None\<close>.
\<close>

definition trackingStep ::
  "string \<Rightarrow> ReplacementData \<Rightarrow> (string \<times> (string \<times> ReplacementMapping) list) option
     \<Rightarrow> string \<times> ReplacementOption \<Rightarrow> (string \<times> (string \<times> ReplacementMapping) list) option" where
  "trackingStep subject data state entry =
     (case state of
        None \<Rightarrow> None
      | Some st \<Rightarrow>
          if fst entry = [] then None
          else
            let valueToReplaceWith = replaceValue data (snd entry);
                replacementMap =
                  (if includes_str subject (fst entry)
                   then mapSet valueToReplaceWith
                          \<lparr>originalPattern = fst entry, mappedDataKey = dataKey (snd entry),
                           replacedValue = valueToReplaceWith\<rparr> (snd st)
                   else snd st)
            in Some (replaceAllLiteral (fst entry) valueToReplaceWith (fst st), replacementMap))"

definition replaceInStringWithTracking ::
  "Config \<Rightarrow> string \<Rightarrow> ReplacementData \<Rightarrow> (string \<times> ReplacementMapping) list
     \<Rightarrow> (string \<times> (string \<times> ReplacementMapping) list) option" where
  "replaceInStringWithTracking config subject data replacementMap =
     map_option (\<lambda>st. (stripBackslashes config (fst st), snd st))
       (foldl (trackingStep subject data) (Some (subject, replacementMap)) (replacements config))"

subsection \<open>The default mapping\<close>



section \<open>The repetition normalizer (SpamCleaner)\<close>

subsection \<open>Data\<close>

text \<open>The options after the constructor has merged the defaults in
  (\<^verbatim>\<open>Required<CleanerOptions>\<close>). The field \<^verbatim>\<open>caseSensitive\<close> is named
  \<open>wordCaseSensitive\<close> here, apart from the field of \<^verbatim>\<open>CheckOptions\<close>.\<close>

record CleanerOptions =
  minRepetitions :: int
  maxLength :: int
  preserveSpacing :: bool
  wordCaseSensitive :: bool

definition defaultCleanerOptions :: CleanerOptions where
  "defaultCleanerOptions =
     \<lparr>minRepetitions = 3, maxLength = 200, preserveSpacing = True, wordCaseSensitive = False\<rparr>"

text \<open>\<^verbatim>\<open>CleanerResult\<close>. The field \<^verbatim>\<open>reductionPercentage\<close>, a rounded floating-point
  quotient that no pass reads, is left out.\<close>

record CleanerResult =
  original :: string
  cleaned :: string
  wasSpam :: bool
  repetitionsFound :: nat
  spamPattern :: "string option"

definition createResult ::
  "string \<Rightarrow> string \<Rightarrow> bool \<Rightarrow> nat \<Rightarrow> string option \<Rightarrow> CleanerResult" where
  "createResult orig cleanedText spam repetitions pat =
     \<lparr>original = orig, cleaned = cleanedText, wasSpam = spam, repetitionsFound = repetitions,
      spamPattern = pat\<rparr>"

subsection \<open>Global regular expressions\<close>

text \<open>
  A regular expression of the program is given by the function \<open>matchAt\<close> that, for the
  rest of the subject from a position on, returns the length of the expression's match at
  that position, or \<open>None\<close>. None of the expressions looks behind the position and each
  matches at least one character. \<^verbatim>\<open>replace\<close> with the flag \<^verbatim>\<open>g\<close> scans from the
  left: at a match it puts out \<open>f\<close> of the matched text and goes on behind the match,
  elsewhere it copies one character. \<^verbatim>\<open>match\<close> with the flag \<^verbatim>\<open>g\<close> lists the matched
  texts of the same scan (the empty list stands for \<^verbatim>\<open>null\<close>).
\<close>

fun replaceMatches :: "(string \<Rightarrow> nat option) \<Rightarrow> (string \<Rightarrow> string) \<Rightarrow> string \<Rightarrow> string" where
  "replaceMatches matchAt f [] = []"
| "replaceMatches matchAt f (c # cs) =
     (case matchAt (c # cs) of
        None \<Rightarrow> c # replaceMatches matchAt f cs
      | Some n \<Rightarrow> f (take n (c # cs)) @ replaceMatches matchAt f (drop (n - 1) cs))"

fun matchesOf :: "(string \<Rightarrow> nat option) \<Rightarrow> string \<Rightarrow> string list" where
  "matchesOf matchAt [] = []"
| "matchesOf matchAt (c # cs) =
     (case matchAt (c # cs) of
        None \<Rightarrow> matchesOf matchAt cs
      | Some n \<Rightarrow> take n (c # cs) # matchesOf matchAt (drop (n - 1) cs))"

text \<open>The length of the longest prefix without white space: what a greedy
  \<^verbatim>\<open>[^\s]+\<close> or \<^verbatim>\<open>[^\s]*\<close> takes when nothing has to follow it.\<close>

definition nonSpaceRun :: "string \<Rightarrow> nat" where
  "nonSpaceRun s = length (takeWhile (\<lambda>c. \<not> isWhiteSpace c) s)"

text \<open>A literal of lower-case ASCII characters under the flag \<^verbatim>\<open>i\<close>.\<close>

definition startsWithCI :: "string \<Rightarrow> string \<Rightarrow> bool" where
  "startsWithCI lit s = prefix lit (toLowerCase s)"

text \<open>\<^verbatim>\<open>/(https?:\/\/[^\s]+)/gi\<close>\<close>

definition matchProtocolUrl :: "string \<Rightarrow> nat option" where
  "matchProtocolUrl s =
     (if startsWithCI ''https://'' s \<and> 0 < nonSpaceRun (drop 8 s)
      then Some (8 + nonSpaceRun (drop 8 s))
      else if startsWithCI ''http://'' s \<and> 0 < nonSpaceRun (drop 7 s)
      then Some (7 + nonSpaceRun (drop 7 s))
      else None)"

text \<open>\<^verbatim>\<open>/(www\.[^\s]+)/gi\<close>\<close>

definition matchWwwUrl :: "string \<Rightarrow> nat option" where
  "matchWwwUrl s =
     (if startsWithCI ''www.'' s \<and> 0 < nonSpaceRun (drop 4 s)
      then Some (4 + nonSpaceRun (drop 4 s))
      else None)"

text \<open>
  \<^verbatim>\<open>/([^\s]+\.(com|net|org|edu|gov|mil|info|biz|tv)([^\s]*)?)/gi\<close>. The first
  \<^verbatim>\<open>[^\s]+\<close> takes at least one character and gives back until a dot with one of the
  endings follows; the last group then takes what is left of the run without white space.
  So the match is the whole run from the position on, when a dot with an ending stands
  somewhere behind the run's first character.
\<close>

definition topLevelDomains :: "string list" where
  "topLevelDomains =
     [''com'', ''net'', ''org'', ''edu'', ''gov'', ''mil'', ''info'', ''biz'', ''tv'']"

fun hasDotTld :: "string \<Rightarrow> bool" where
  "hasDotTld [] = False"
| "hasDotTld (c # cs) =
     ((c = CHR ''.'' \<and> list_ex (\<lambda>tld. startsWithCI tld cs) topLevelDomains) \<or> hasDotTld cs)"

definition matchTldUrl :: "string \<Rightarrow> nat option" where
  "matchTldUrl s =
     (let token = takeWhile (\<lambda>c. \<not> isWhiteSpace c) s
      in if token \<noteq> [] \<and> hasDotTld (tl token) then Some (length token) else None)"

text \<open>\<^verbatim>\<open>/([^\s]+\.twitch\.[^\s]+)/gi\<close>: the whole run from the position on, when
  \<^verbatim>\<open>.twitch.\<close> stands behind the run's first character with at least one character of
  the run after it.\<close>

fun hasTwitch :: "string \<Rightarrow> bool" where
  "hasTwitch [] = False"
| "hasTwitch (c # cs) =
     ((startsWithCI ''.twitch.'' (c # cs) \<and> 8 < length (c # cs)) \<or> hasTwitch cs)"

definition matchTwitchUrl :: "string \<Rightarrow> nat option" where
  "matchTwitchUrl s =
     (let token = takeWhile (\<lambda>c. \<not> isWhiteSpace c) s
      in if token \<noteq> [] \<and> hasTwitch (tl token) then Some (length token) else None)"

text \<open>\<^verbatim>\<open>/tmi\.twitch\.tv/gi\<close>\<close>

definition matchTmi :: "string \<Rightarrow> nat option" where
  "matchTmi s = (if startsWithCI ''tmi.twitch.tv'' s then Some 13 else None)"

text \<open>The class \<^verbatim>\<open>[a-zA-Z0-9_]\<close>.\<close>

definition isWordChar :: "char \<Rightarrow> bool" where
  "isWordChar c =
     (let n = (of_char c :: nat)
      in (48 \<le> n \<and> n \<le> 57) \<or> (65 \<le> n \<and> n \<le> 90) \<or> n = 95 \<or> (97 \<le> n \<and> n \<le> 122))"

text \<open>\<^verbatim>\<open>/#[a-zA-Z0-9_]+/g\<close>\<close>

definition matchChannel :: "string \<Rightarrow> nat option" where
  "matchChannel s =
     (case s of
        [] \<Rightarrow> None
      | c # cs \<Rightarrow>
          if c = CHR ''#'' \<and> 0 < length (takeWhile isWordChar cs)
          then Some (1 + length (takeWhile isWordChar cs))
          else None)"

text \<open>\<^verbatim>\<open>/:[a-zA-Z0-9_]+\.[^\s]+/g\<close>: the dot is no character of the class, so it can
  only follow the longest run of class characters.\<close>

definition matchColonDomain :: "string \<Rightarrow> nat option" where
  "matchColonDomain s =
     (case s of
        [] \<Rightarrow> None
      | c # cs \<Rightarrow>
          let w = takeWhile isWordChar cs; r = dropWhile isWordChar cs
          in if c = CHR '':'' \<and> w \<noteq> [] \<and> r \<noteq> [] \<and> hd r = CHR ''.'' \<and> 0 < nonSpaceRun (tl r)
             then Some (1 + length w + 1 + nonSpaceRun (tl r))
             else None)"

text \<open>\<^verbatim>\<open>/\s+/g\<close>\<close>

definition matchSpaces :: "string \<Rightarrow> nat option" where
  "matchSpaces s =
     (let n = length (takeWhile isWhiteSpace s) in if 0 < n then Some n else None)"

subsection \<open>cleanUrls\<close>

definition cleanUrls :: "string \<Rightarrow> string" where
  "cleanUrls text0 =
     (let text1 = replaceMatches matchProtocolUrl (\<lambda>m. []) text0;
          text2 = replaceMatches matchWwwUrl (\<lambda>m. []) text1;
          text3 = replaceMatches matchTldUrl (\<lambda>m. []) text2;
          text4 = replaceMatches matchTwitchUrl (\<lambda>m. []) text3;
          text5 = replaceMatches matchTmi (\<lambda>m. []) text4;
          text6 = replaceMatches matchChannel (\<lambda>m. []) text5;
          text7 = replaceMatches matchColonDomain (\<lambda>m. []) text6
      in trim (replaceMatches matchSpaces (\<lambda>m. '' '') text7))"

subsection \<open>cleanRepeatedChars\<close>

text \<open>The dot of a regular expression matches every character but a line terminator, of
  which line feed and carriage return are in the range of the model.\<close>

definition isLineTerminator :: "char \<Rightarrow> bool" where
  "isLineTerminator c = (of_char c \<in> {10, 13 :: nat})"

text \<open>\<^verbatim>\<open>/(.)\1{2,}/g\<close>: a character that the dot matches, and two or more copies of it,
  as many as follow (the quantifier is greedy and nothing has to follow it).\<close>

definition matchCharRun :: "string \<Rightarrow> nat option" where
  "matchCharRun s =
     (case s of
        [] \<Rightarrow> None
      | c # cs \<Rightarrow>
          if \<not> isLineTerminator c \<and> 2 \<le> length (takeWhile (\<lambda>d. d = c) cs)
          then Some (1 + length (takeWhile (\<lambda>d. d = c) cs))
          else None)"

text \<open>The loop over the matches: the largest length among the matches of length at least
  \<^verbatim>\<open>minRepetitions\<close>, and the first character of the last such match.\<close>

definition charScanStep :: "CleanerOptions \<Rightarrow> nat \<times> string \<Rightarrow> string \<Rightarrow> nat \<times> string" where
  "charScanStep opts acc m =
     (if minRepetitions opts \<le> int (length m)
      then (max (fst acc) (length m), [hd m])
      else acc)"

text \<open>The callback of the replacement: \<^verbatim>\<open>match.length >= minRepetitions ? char + char : match\<close>.\<close>

definition collapseRun :: "CleanerOptions \<Rightarrow> string \<Rightarrow> string" where
  "collapseRun opts m = (if minRepetitions opts \<le> int (length m) then [hd m, hd m] else m)"

definition cleanRepeatedChars :: "CleanerOptions \<Rightarrow> string \<Rightarrow> CleanerResult" where
  "cleanRepeatedChars opts subject =
     (let matches = matchesOf matchCharRun subject;
          scan = foldl (charScanStep opts) (0, []) matches;
          maxRepetitions = fst scan;
          spamChar = snd scan;
          cleanedText =
            (if matches \<noteq> [] \<and> minRepetitions opts \<le> int maxRepetitions
             then replaceMatches matchCharRun (collapseRun opts) subject
             else subject)
      in createResult subject cleanedText (minRepetitions opts \<le> int maxRepetitions)
           maxRepetitions (Some spamChar))"

subsection \<open>Words\<close>

text \<open>\<^verbatim>\<open>text.split(/\s+/)\<close>: the pieces between the runs of white space; white space at
  the start or the end of the text gives an empty first or last piece, and the empty text
  gives one empty piece.\<close>

function splitWords :: "string \<Rightarrow> string list" where
  "splitWords s =
     (let w = takeWhile (\<lambda>c. \<not> isWhiteSpace c) s;
          r = dropWhile (\<lambda>c. \<not> isWhiteSpace c) s
      in if r = [] then [w] else w # splitWords (dropWhile isWhiteSpace r))"
  by pat_completeness auto
termination
proof (relation "measure length")
  show "wf (measure length)" by simp
next
  fix s w r :: string
  assume r: "r = dropWhile (\<lambda>c. \<not> isWhiteSpace c) s" and ne: "r \<noteq> []"
  from ne obtain c r' where cr: "r = c # r'" by (cases r) auto
  have "dropWhile (\<lambda>c. \<not> isWhiteSpace c) s \<noteq> []"
    using ne r by simp
  then have "\<not> \<not> isWhiteSpace (hd (dropWhile (\<lambda>c. \<not> isWhiteSpace c) s))"
    by (rule hd_dropWhile)
  then have "isWhiteSpace (hd r)"
    unfolding r by simp
  then have "isWhiteSpace c"
    by (simp add: cr)
  then have "length (dropWhile isWhiteSpace r) \<le> length r'"
    by (simp add: cr length_dropWhile_le)
  moreover have "length r \<le> length s"
    by (simp add: r length_dropWhile_le)
  ultimately show "(dropWhile isWhiteSpace r, s) \<in> measure length"
    by (simp add: cr)
qed

declare splitWords.simps [simp del]

text \<open>\<^verbatim>\<open>words.join(' ')\<close>\<close>

fun joinWords :: "string list \<Rightarrow> string" where
  "joinWords [] = []"
| "joinWords [w] = w"
| "joinWords (w # v # ws) = w @ '' '' @ joinWords (v # ws)"

text \<open>\<^verbatim>\<open>words.slice(i, j)\<close> for indices that are not negative.\<close>

definition slice :: "'a list \<Rightarrow> nat \<Rightarrow> nat \<Rightarrow> 'a list" where
  "slice xs i j = take (j - i) (drop i xs)"

definition normalizeCase :: "CleanerOptions \<Rightarrow> string \<Rightarrow> string" where
  "normalizeCase opts w = (if wordCaseSensitive opts then w else toLowerCase w)"

subsection \<open>cleanRepeatedWords\<close>

text \<open>The inner \<^verbatim>\<open>while\<close> loop, which counts the consecutive copies of
  \<^verbatim>\<open>words[i]\<close>.\<close>

function countRepetitions :: "CleanerOptions \<Rightarrow> string list \<Rightarrow> nat \<Rightarrow> nat \<Rightarrow> nat" where
  "countRepetitions opts ws i repetitionCount =
     (if i + repetitionCount < length ws
      then if normalizeCase opts (ws ! i) = normalizeCase opts (ws ! (i + repetitionCount))
           then countRepetitions opts ws i (repetitionCount + 1)
           else repetitionCount
      else repetitionCount)"
  by pat_completeness auto
termination
  by (relation "measure (\<lambda>(opts, ws, i, n). length ws - (i + n))") auto

declare countRepetitions.simps [simp del]

lemma countRepetitions_ge: "n \<le> countRepetitions opts ws i n"
proof (induction opts ws i n rule: countRepetitions.induct)
  case (1 opts ws i n)
  show ?case
  proof (cases "i + n < length ws \<and>
      normalizeCase opts (ws ! i) = normalizeCase opts (ws ! (i + n))")
    case True
    with 1 have "n + 1 \<le> countRepetitions opts ws i (n + 1)" by simp
    with True show ?thesis by (subst countRepetitions.simps) simp
  next
    case False
    then show ?thesis by (subst countRepetitions.simps) auto
  qed
qed

text \<open>The state of the outer loop: the words kept, \<^verbatim>\<open>maxRepetitions\<close> and
  \<^verbatim>\<open>spamPattern\<close>.\<close>

function wordsLoop ::
  "CleanerOptions \<Rightarrow> string list \<Rightarrow> nat \<Rightarrow> string list \<times> nat \<times> string
     \<Rightarrow> string list \<times> nat \<times> string" where
  "wordsLoop opts ws i acc =
     (if i < length ws
      then let currentWord = ws ! i;
               repetitionCount = countRepetitions opts ws i 1
           in if minRepetitions opts \<le> int repetitionCount
              then wordsLoop opts ws (i + repetitionCount)
                     (fst acc @ [currentWord], max (fst (snd acc)) repetitionCount, currentWord)
              else wordsLoop opts ws (i + repetitionCount)
                     (fst acc @ slice ws i (i + repetitionCount), snd acc)
      else acc)"
  by pat_completeness auto
termination
proof (relation "measure (\<lambda>(opts, ws, i, acc). length ws - i)")
  show "wf (measure (\<lambda>(opts, ws, i, acc). length ws - i))" by simp
next
  fix opts :: CleanerOptions and ws :: "string list" and i :: nat
    and acc :: "string list \<times> nat \<times> string" and x xa
  assume "i < length ws" and "xa = countRepetitions opts ws i 1"
  moreover have "1 \<le> countRepetitions opts ws i 1" by (rule countRepetitions_ge)
  ultimately show "((opts, ws, i + xa, fst acc @ [x], max (fst (snd acc)) xa, x), opts, ws, i, acc)
      \<in> measure (\<lambda>(opts, ws, i, acc). length ws - i)"
    by simp
next
  fix opts :: CleanerOptions and ws :: "string list" and i :: nat
    and acc :: "string list \<times> nat \<times> string" and x xa
  assume "i < length ws" and "xa = countRepetitions opts ws i 1"
  moreover have "1 \<le> countRepetitions opts ws i 1" by (rule countRepetitions_ge)
  ultimately show "((opts, ws, i + xa, fst acc @ slice ws i (i + xa), snd acc), opts, ws, i, acc)
      \<in> measure (\<lambda>(opts, ws, i, acc). length ws - i)"
    by simp
qed

declare wordsLoop.simps [simp del]

definition cleanRepeatedWords :: "CleanerOptions \<Rightarrow> string \<Rightarrow> CleanerResult" where
  "cleanRepeatedWords opts subject =
     (let ws = splitWords subject
      in if int (length ws) < minRepetitions opts
         then createResult subject subject False 0 None
         else let final = wordsLoop opts ws 0 ([], 0, []);
                  maxRepetitions = fst (snd final)
              in createResult subject (joinWords (fst final))
                   (minRepetitions opts \<le> int maxRepetitions) maxRepetitions
                   (Some (snd (snd final))))"

subsection \<open>cleanRepeatedPhrases\<close>

text \<open>
  The inner \<^verbatim>\<open>while\<close> loop of \<^verbatim>\<open>findAndCleanRepeatedPhrase\<close>, which counts the
  consecutive copies of the phrase. The method is private and its one caller passes phrase
  lengths from 2 to 5; the test \<open>0 < phraseLength\<close> is added for the length 0, which the
  program never passes and with which the loop of the source would not advance.
\<close>

function countPhrases ::
  "CleanerOptions \<Rightarrow> string list \<Rightarrow> nat \<Rightarrow> string \<Rightarrow> nat \<Rightarrow> nat \<Rightarrow> nat" where
  "countPhrases opts ws phraseLength phrase nextIndex repetitions =
     (if 0 < phraseLength \<and> nextIndex + phraseLength \<le> length ws
      then let nextPhrase = joinWords (slice ws nextIndex (nextIndex + phraseLength))
           in if normalizeCase opts phrase = normalizeCase opts nextPhrase
              then countPhrases opts ws phraseLength phrase (nextIndex + phraseLength)
                     (repetitions + 1)
              else repetitions
      else repetitions)"
  by pat_completeness auto
termination
  by (relation "measure (\<lambda>(opts, ws, pl, phrase, nextIndex, n). Suc (length ws) - nextIndex)")
     auto

declare countPhrases.simps [simp del]

text \<open>The \<^verbatim>\<open>for\<close> loop over the start index \<open>i\<close>, up to
  \<^verbatim>\<open>words.length - phraseLength * minRepetitions\<close>.\<close>

function phraseScan :: "CleanerOptions \<Rightarrow> string \<Rightarrow> string list \<Rightarrow> nat \<Rightarrow> nat \<Rightarrow> CleanerResult" where
  "phraseScan opts subject ws phraseLength i =
     (if int i \<le> int (length ws) - int phraseLength * minRepetitions opts
      then let phrase = joinWords (slice ws i (i + phraseLength));
               repetitions = countPhrases opts ws phraseLength phrase (i + phraseLength) 1
           in if minRepetitions opts \<le> int repetitions
              then let preceding = joinWords (slice ws 0 i);
                       following = joinWords (drop (i + phraseLength * repetitions) ws);
                       cleanedParts = filter (\<lambda>part. trim part \<noteq> []) [preceding, phrase, following]
                   in createResult subject (joinWords cleanedParts) True repetitions (Some phrase)
              else phraseScan opts subject ws phraseLength (i + 1)
      else createResult subject subject False 0 None)"
  by pat_completeness auto
termination
  by (relation "measure (\<lambda>(opts, subject, ws, pl, i).
        nat (int (length ws) - int pl * minRepetitions opts + 1 - int i))") auto

declare phraseScan.simps [simp del]

definition findAndCleanRepeatedPhrase :: "CleanerOptions \<Rightarrow> string \<Rightarrow> nat \<Rightarrow> CleanerResult" where
  "findAndCleanRepeatedPhrase opts subject phraseLength =
     (let ws = splitWords subject
      in if int (length ws) < int phraseLength * minRepetitions opts
         then createResult subject subject False 0 None
         else phraseScan opts subject ws phraseLength 0)"

text \<open>The \<^verbatim>\<open>for\<close> loop over the phrase length, downwards to 2.\<close>

fun phraseLengths :: "CleanerOptions \<Rightarrow> string \<Rightarrow> nat \<Rightarrow> CleanerResult" where
  "phraseLengths opts subject 0 = createResult subject subject False 0 None"
| "phraseLengths opts subject (Suc k) =
     (if 2 \<le> Suc k
      then let result = findAndCleanRepeatedPhrase opts subject (Suc k)
           in if wasSpam result then result else phraseLengths opts subject k
      else createResult subject subject False 0 None)"

text \<open>
  The first phrase length, \<^verbatim>\<open>Math.min(5, Math.floor(words.length / minRepetitions))\<close>:
  the division by 0 gives infinity (there is at least one word), and a negative result
  starts the loop below 2.
\<close>

definition firstPhraseLength :: "CleanerOptions \<Rightarrow> nat \<Rightarrow> nat" where
  "firstPhraseLength opts wordCount =
     (if minRepetitions opts = 0 then 5
      else nat (min 5 (int wordCount div minRepetitions opts)))"

definition cleanRepeatedPhrases :: "CleanerOptions \<Rightarrow> string \<Rightarrow> CleanerResult" where
  "cleanRepeatedPhrases opts subject =
     phraseLengths opts subject (firstPhraseLength opts (length (splitWords subject)))"

subsection \<open>clean\<close>

text \<open>The locals of \<^verbatim>\<open>clean\<close> that the three passes update.\<close>

record cascade =
  currentText :: string
  totalRepetitions :: nat
  spamSoFar :: bool
  mainPattern :: string

text \<open>What \<^verbatim>\<open>clean\<close> does with the result of a pass; the last line is
  \<^verbatim>\<open>mainPattern = mainPattern || result.pattern || ''\<close>.\<close>

definition applyPass :: "CleanerResult \<Rightarrow> cascade \<Rightarrow> cascade" where
  "applyPass result st =
     (if wasSpam result
      then \<lparr>currentText = cleaned result,
            totalRepetitions = max (totalRepetitions st) (repetitionsFound result),
            spamSoFar = True,
            mainPattern = (if mainPattern st \<noteq> [] then mainPattern st
                           else case spamPattern result of None \<Rightarrow> [] | Some p \<Rightarrow> p)\<rparr>
      else st)"

text \<open>The state after the three passes; \<^verbatim>\<open>clean\<close> reaches them with a message that
  is not empty after trimming.\<close>

definition passes :: "CleanerOptions \<Rightarrow> string \<Rightarrow> cascade" where
  "passes opts message =
     (let st0 = \<lparr>currentText = cleanUrls (trim message), totalRepetitions = 0,
                 spamSoFar = False, mainPattern = []\<rparr>;
          st1 = applyPass (cleanRepeatedChars opts (currentText st0)) st0;
          st2 = applyPass (cleanRepeatedPhrases opts (currentText st1)) st1
      in applyPass (cleanRepeatedWords opts (currentText st2)) st2)"

text \<open>\<^verbatim>\<open>currentText.substring(0, maxLength - 3) + '...'\<close>; a negative end index counts
  as 0.\<close>

definition truncateText :: "CleanerOptions \<Rightarrow> string \<Rightarrow> string" where
  "truncateText opts t =
     (if maxLength opts < int (length t)
      then take (nat (maxLength opts - 3)) t @ ''...''
      else t)"

definition clean :: "CleanerOptions \<Rightarrow> string \<Rightarrow> CleanerResult" where
  "clean opts message =
     (if trim message = [] then createResult message [] False 0 None
      else let st = passes opts message
           in createResult message (truncateText opts (currentText st)) (spamSoFar st)
                (totalRepetitions st) (Some (mainPattern st)))"

subsection \<open>Runs of characters\<close>

text \<open>The maximal runs of equal consecutive characters of a text, each with its length,
  from left to right.\<close>

function runs :: "string \<Rightarrow> (char \<times> nat) list" where
  "runs [] = []"
| "runs (c # cs) =
     (c, Suc (length (takeWhile (\<lambda>d. d = c) cs))) # runs (dropWhile (\<lambda>d. d = c) cs)"
  by pat_completeness auto
termination
  by (relation "measure length") (auto simp: length_dropWhile_le less_Suc_eq_le)

text \<open>A run that the character pass collapses: of a character that is no line
  terminator, of length at least 3 and at least \<^verbatim>\<open>minRepetitions\<close>.\<close>

definition collapsible :: "CleanerOptions \<Rightarrow> char \<times> nat \<Rightarrow> bool" where
  "collapsible opts run =
     (\<not> isLineTerminator (fst run) \<and> 3 \<le> snd run \<and> minRepetitions opts \<le> int (snd run))"

definition renderRun :: "CleanerOptions \<Rightarrow> char \<times> nat \<Rightarrow> string" where
  "renderRun opts run =
     (if collapsible opts run then [fst run, fst run] else replicate (snd run) (fst run))"

text \<open>A run that the expression of the character pass matches.\<close>

definition regexRun :: "char \<times> nat \<Rightarrow> bool" where
  "regexRun run = (\<not> isLineTerminator (fst run) \<and> 3 \<le> snd run)"

section \<open>Properties of checkString\<close>

lemma blackStep_no_mode [simp]:
  "blackStep now cs False False t st b = st"
  by (simp add: blackStep_def matchesText_def)

lemma whiteStep_no_mode [simp]:
  "whiteStep cs False False t st w = st"
  by (simp add: whiteStep_def matchesText_def)

lemma foldl_const_step: "(\<And>s x. f s x = s) \<Longrightarrow> foldl f s xs = s"
  by (induction xs arbitrary: s) simp_all

lemma filterStep_no_mode [simp]:
  "filterStep now cs False False t st f = st"
  by (simp add: filterStep_def foldl_const_step)

lemma scanFilters_no_mode:
  "scanFilters now cs False False t fs = \<lparr>matchedBlack = [], matchedWhite = [], expReason = None\<rparr>"
  by (simp add: scanFilters_def foldl_const_step)

text \<open>
  C10. With both comparison modes switched off (\<^verbatim>\<open>exactMatch: false\<close>,
  \<^verbatim>\<open>partialMatch: false\<close>) no entry of any list is recorded as a match, so for
  every table, text, clock reading and \<^verbatim>\<open>caseSensitive\<close> setting the verdict is
  allowed, not blocked, reason \<^verbatim>\<open>none\<close>, with both matched lists empty.
\<close>

theorem checkString_no_mode:
  "checkString now fs txt
     \<lparr>caseSensitive = cso, exactMatch = Some False, partialMatch = Some False\<rparr>
   = \<lparr>isAllowed = True, isBlocked = False, matchedBlackList = [], matchedWhiteList = [],
      reason = NoReason, expirationReason = None\<rparr>"
  by (simp add: checkString_def scanFilters_no_mode exactMatchOf_def partialMatchOf_def)

subsection \<open>The loops in closed form\<close>

lemma lastExpiry_Nil [simp]: "lastExpiry [] = None"
  by (simp add: lastExpiry_def)

lemma lastExpiry_snoc:
  "lastExpiry (bs @ [b]) = (case expiryOf b of None \<Rightarrow> lastExpiry bs | Some e \<Rightarrow> Some e)"
  by (cases "expiryOf b") (simp_all add: lastExpiry_def Let_def)

lemma lastExpiry_append:
  "lastExpiry (xs @ ys) = (case lastExpiry ys of None \<Rightarrow> lastExpiry xs | Some e \<Rightarrow> Some e)"
proof (induction ys rule: rev_induct)
  case Nil
  show ?case by simp
next
  case (snoc y ys)
  have "lastExpiry (xs @ ys @ [y]) = lastExpiry ((xs @ ys) @ [y])" by simp
  also have "\<dots> = (case expiryOf y of None \<Rightarrow> lastExpiry (xs @ ys) | Some e \<Rightarrow> Some e)"
    by (rule lastExpiry_snoc)
  finally show ?case using snoc by (simp add: lastExpiry_snoc split: option.splits)
qed

lemma carry_Nil [simp]: "carry r [] = r"
  by (simp add: carry_def)

lemma carry_append: "carry r (xs @ ys) = carry (carry r xs) ys"
  by (simp add: carry_def lastExpiry_append split: option.splits)

lemma carry_single: "carry r [b] = (case b of Obj s (Some e) \<Rightarrow> Some (BlockedUntil e) | _ \<Rightarrow> r)"
  by (cases b) (auto simp: carry_def lastExpiry_def Let_def split: option.splits)

lemma carry_Cons_filter: "carry r (b # filter P bs) = carry (carry r [b]) (filter P bs)"
  using carry_append [of r "[b]" "filter P bs"] by simp

lemma foldl_blackStep:
  "foldl (blackStep now cs ex pa t) st bl =
     st\<lparr>matchedBlack := matchedBlack st @
            filter (\<lambda>b. \<not> expiredEntry now b \<and> matchesText ex pa t (processedBlackItem cs b)) bl,
        expReason := carry (expReason st)
            (filter (\<lambda>b. \<not> expiredEntry now b \<and> matchesText ex pa t (processedBlackItem cs b)) bl)\<rparr>"
proof (induction bl arbitrary: st)
  case Nil
  show ?case by simp
next
  case (Cons b bl)
  show ?case
    apply (subst foldl_Cons)
    apply (subst Cons)
    apply (simp add: blackStep_def carry_Cons_filter carry_single del: blackStep_no_mode)
    done
qed

lemma foldl_whiteStep:
  "foldl (whiteStep cs ex pa t) st wl =
     st\<lparr>matchedWhite := matchedWhite st @
            filter (\<lambda>w. matchesText ex pa t (processedWhiteItem cs w)) wl\<rparr>"
  by (induction wl arbitrary: st) (simp_all add: whiteStep_def)

lemma filterStep_eq:
  "filterStep now cs ex pa t st f =
     st\<lparr>matchedBlack := matchedBlack st @
            filter (\<lambda>b. \<not> expiredEntry now b \<and> matchesText ex pa t (processedBlackItem cs b)) (blackList f),
        matchedWhite := matchedWhite st @
            filter (\<lambda>w. matchesText ex pa t (processedWhiteItem cs w)) (whiteList f),
        expReason := carry (expReason st)
            (filter (\<lambda>b. \<not> expiredEntry now b \<and> matchesText ex pa t (processedBlackItem cs b)) (blackList f))\<rparr>"
  by (simp add: filterStep_def foldl_blackStep foldl_whiteStep)

lemma foldl_filterStep:
  "foldl (filterStep now cs ex pa t) st fs =
     st\<lparr>matchedBlack := matchedBlack st @
            concat (map (\<lambda>f. filter (\<lambda>b. \<not> expiredEntry now b \<and> matchesText ex pa t (processedBlackItem cs b)) (blackList f)) fs),
        matchedWhite := matchedWhite st @
            concat (map (\<lambda>f. filter (\<lambda>w. matchesText ex pa t (processedWhiteItem cs w)) (whiteList f)) fs),
        expReason := carry (expReason st)
            (concat (map (\<lambda>f. filter (\<lambda>b. \<not> expiredEntry now b \<and> matchesText ex pa t (processedBlackItem cs b)) (blackList f)) fs))\<rparr>"
proof (induction fs arbitrary: st)
  case Nil
  show ?case by simp
next
  case (Cons f fs)
  show ?case
    apply (subst foldl_Cons)
    apply (subst Cons)
    apply (simp add: filterStep_eq carry_append)
    done
qed

lemma denyMatch_fun:
  "(\<lambda>b. \<not> expiredEntry now b \<and>
        matchesText (exactMatchOf options) (partialMatchOf options) (processedTextOf options txt)
          (processedBlackItem (caseSensitiveOf options) b)) = denyMatch now options txt"
  by (simp add: fun_eq_iff denyMatch_def)

lemma allowMatch_fun:
  "(\<lambda>w. matchesText (exactMatchOf options) (partialMatchOf options) (processedTextOf options txt)
          (processedWhiteItem (caseSensitiveOf options) w)) = allowMatch options txt"
  by (simp add: fun_eq_iff allowMatch_def)

lemma scanFilters_eq:
  "scanFilters now (caseSensitiveOf options) (exactMatchOf options) (partialMatchOf options)
      (processedTextOf options txt) fs =
   \<lparr>matchedBlack = denyMatches now options txt fs,
    matchedWhite = allowMatches options txt fs,
    expReason = map_option BlockedUntil (lastExpiry (denyMatches now options txt fs))\<rparr>"
  by (simp add: scanFilters_def foldl_filterStep denyMatches_def allowMatches_def
      denyMatch_fun allowMatch_fun carry_def split: option.splits)

lemma checkString_eq:
  "checkString now fs txt options =
     (if allowMatches options txt fs \<noteq> [] then
        \<lparr>isAllowed = True, isBlocked = False,
         matchedBlackList = denyMatches now options txt fs,
         matchedWhiteList = allowMatches options txt fs,
         reason = Whitelist, expirationReason = None\<rparr>
      else if denyMatches now options txt fs \<noteq> [] then
        \<lparr>isAllowed = False, isBlocked = True,
         matchedBlackList = denyMatches now options txt fs,
         matchedWhiteList = allowMatches options txt fs,
         reason = Blacklist,
         expirationReason = map_option BlockedUntil (lastExpiry (denyMatches now options txt fs))\<rparr>
      else
        \<lparr>isAllowed = True, isBlocked = False,
         matchedBlackList = denyMatches now options txt fs,
         matchedWhiteList = allowMatches options txt fs,
         reason = NoReason, expirationReason = None\<rparr>)"
  unfolding checkString_def scanFilters_eq by (simp add: Let_def)

lemma withoutEntries_simps [simp]:
  "isActive (withoutEntries gone now f) = isActive f"
  "whiteList (withoutEntries gone now f) = whiteList f"
  by (simp_all add: withoutEntries_def)

lemma filter_deny_withoutEntries:
  "filter (denyMatch now options txt) (blackList (withoutEntries gone now f)) =
   filter (denyMatch now options txt) (blackList f)"
  by (auto simp: withoutEntries_def denyMatch_def intro!: filter_cong)

lemma denyMatches_withoutEntries:
  "denyMatches now options txt (map (withoutEntries gone now) fs) = denyMatches now options txt fs"
  by (induction fs) (simp_all add: denyMatches_def filter_deny_withoutEntries)

lemma allowMatches_withoutEntries:
  "allowMatches options txt (map (withoutEntries gone now) fs) = allowMatches options txt fs"
  by (induction fs) (simp_all add: allowMatches_def)

subsection \<open>Allow overrides deny\<close>

text \<open>
  C1. If some active filter set holds an allow entry that matches the text (in the
  comparison mode of the options), then \<^verbatim>\<open>checkString\<close> returns
  \<^verbatim>\<open>isAllowed = true\<close>, \<^verbatim>\<open>isBlocked = false\<close> and the reason \<^verbatim>\<open>whitelist\<close>,
  whatever the deny lists of the table hold and however many of their entries match.
\<close>

theorem allow_match_overrides:
  assumes "f \<in> set fs" and "isActive f" and "w \<in> set (whiteList f)"
    and "allowMatch options txt w"
  shows "isAllowed (checkString now fs txt options) \<and>
         \<not> isBlocked (checkString now fs txt options) \<and>
         reason (checkString now fs txt options) = Whitelist \<and>
         w \<in> set (matchedWhiteList (checkString now fs txt options))"
proof -
  from assms have "w \<in> set (allowMatches options txt fs)"
    by (auto simp: allowMatches_def)
  then show ?thesis
    by (auto simp: checkString_eq)
qed

text \<open>The spec's scenario D: the deny entry \<^verbatim>\<open>spam\<close> matches, and the allow entry
  wins.\<close>

theorem allow_match_overrides_witness:
  "denyMatches 0 noOptions ''this is not spam at all, really''
     [\<lparr>filterId = ''default'', blackList = [Str ''spam''], whiteList = [''not spam at all''],
       createdAt = 0, updatedAt = 0, isActive = True\<rparr>] = [Str ''spam''] \<and>
   isAllowed (checkString 0
     [\<lparr>filterId = ''default'', blackList = [Str ''spam''], whiteList = [''not spam at all''],
       createdAt = 0, updatedAt = 0, isActive = True\<rparr>]
     ''this is not spam at all, really'' noOptions) \<and>
   reason (checkString 0
     [\<lparr>filterId = ''default'', blackList = [Str ''spam''], whiteList = [''not spam at all''],
       createdAt = 0, updatedAt = 0, isActive = True\<rparr>]
     ''this is not spam at all, really'' noOptions) = Whitelist"
proof -
  let ?f = "\<lparr>filterId = ''default'', blackList = [Str ''spam''],
             whiteList = [''not spam at all''], createdAt = 0, updatedAt = 0,
             isActive = True\<rparr>"
  have h1: "?f \<in> set [?f]" by simp
  have h2: "isActive ?f" by simp
  have h3: "''not spam at all'' \<in> set (whiteList ?f)" by simp
  have h4: "allowMatch noOptions ''this is not spam at all, really'' ''not spam at all''"
    by code_simp
  have d: "denyMatches 0 noOptions ''this is not spam at all, really'' [?f] = [Str ''spam'']"
    by code_simp
  show ?thesis
    using allow_match_overrides [OF h1 h2 h3 h4, of 0] d by simp
qed

subsection \<open>Expired deny entries\<close>

text \<open>
  C3. A deny entry whose \<^verbatim>\<open>expiresAt\<close> is earlier than the current time is never in
  the verdict's \<^verbatim>\<open>matchedBlackList\<close>, and the verdict of \<^verbatim>\<open>checkString\<close> is the
  verdict on the table from which expired deny entries (any selection \<open>gone\<close> of them, all
  of them included) have been removed: an expired entry that the sweep has not removed yet
  is treated as absent.
\<close>

theorem expired_entries_inert:
  "e < now \<Longrightarrow>
     Obj s (Some e) \<notin> set (matchedBlackList (checkString now fs txt options)) \<and>
     checkString now (map (withoutEntries gone now) fs) txt options =
       checkString now fs txt options"
proof -
  assume "e < now"
  then have "Obj s (Some e) \<notin> set (denyMatches now options txt fs)"
    by (auto simp: denyMatches_def denyMatch_def)
  then show ?thesis
    by (simp add: checkString_eq denyMatches_withoutEntries allowMatches_withoutEntries)
qed

theorem expired_entries_inert_witness:
  "(500 :: int) < 1000 \<and>
   Obj ''spam'' (Some 500) \<notin> set (matchedBlackList (checkString 1000
     [\<lparr>filterId = ''default'', blackList = [Obj ''spam'' (Some 500)], whiteList = [],
       createdAt = 0, updatedAt = 0, isActive = True\<rparr>] ''spam'' noOptions)) \<and>
   checkString 1000
     [\<lparr>filterId = ''default'', blackList = [Obj ''spam'' (Some 500)], whiteList = [],
       createdAt = 0, updatedAt = 0, isActive = True\<rparr>] ''spam'' noOptions =
   checkString 1000
     [\<lparr>filterId = ''default'', blackList = [], whiteList = [],
       createdAt = 0, updatedAt = 0, isActive = True\<rparr>] ''spam'' noOptions \<and>
   reason (checkString 500
     [\<lparr>filterId = ''default'', blackList = [Obj ''spam'' (Some 500)], whiteList = [],
       createdAt = 0, updatedAt = 0, isActive = True\<rparr>] ''spam'' noOptions) = Blacklist"
proof -
  let ?f = "\<lparr>filterId = ''default'', blackList = [Obj ''spam'' (Some 500)], whiteList = [],
             createdAt = 0, updatedAt = 0, isActive = True\<rparr>"
  have h: "(500 :: int) < 1000" by simp
  have before: "reason (checkString 500 [?f] ''spam'' noOptions) = Blacklist"
    by code_simp
  show ?thesis
    using expired_entries_inert [OF h, of "''spam''" "[?f]" "''spam''" noOptions "\<lambda>b. True"]
      before
    by (simp add: withoutEntries_def)
qed

subsection \<open>The blacklist verdict and its expiry message\<close>

text \<open>
  C5, as the code has it. When the scan finds deny matches and no allow match, the verdict
  is blocked with the reason \<^verbatim>\<open>blacklist\<close>, its \<^verbatim>\<open>matchedBlackList\<close> is the list of
  deny matches in scan order, and its \<^verbatim>\<open>expirationReason\<close> is taken from the last deny
  match in that order that carries an expiry timestamp (every such match overwrites the
  message); it is undefined when no deny match carries one.
\<close>

theorem blacklist_verdict_last_expiry:
  assumes "allowMatches options txt fs = []" and "denyMatches now options txt fs \<noteq> []"
  shows "reason (checkString now fs txt options) = Blacklist \<and>
         \<not> isAllowed (checkString now fs txt options) \<and>
         isBlocked (checkString now fs txt options) \<and>
         matchedBlackList (checkString now fs txt options) = denyMatches now options txt fs \<and>
         expirationReason (checkString now fs txt options) =
           map_option BlockedUntil (lastExpiry (denyMatches now options txt fs))"
  using assms by (simp add: checkString_eq)

theorem blacklist_verdict_last_expiry_witness:
  "allowMatches noOptions ''Spam''
     [\<lparr>filterId = ''default'',
       blackList = [Obj ''spam'' (Some 86400000), Obj ''am'' (Some 172800000), Str ''pa''],
       whiteList = [''ham''], createdAt = 0, updatedAt = 0, isActive = True\<rparr>] = [] \<and>
   denyMatches 1000 noOptions ''Spam''
     [\<lparr>filterId = ''default'',
       blackList = [Obj ''spam'' (Some 86400000), Obj ''am'' (Some 172800000), Str ''pa''],
       whiteList = [''ham''], createdAt = 0, updatedAt = 0, isActive = True\<rparr>] =
     [Obj ''spam'' (Some 86400000), Obj ''am'' (Some 172800000), Str ''pa''] \<and>
   reason (checkString 1000
     [\<lparr>filterId = ''default'',
       blackList = [Obj ''spam'' (Some 86400000), Obj ''am'' (Some 172800000), Str ''pa''],
       whiteList = [''ham''], createdAt = 0, updatedAt = 0, isActive = True\<rparr>]
     ''Spam'' noOptions) = Blacklist \<and>
   expirationReason (checkString 1000
     [\<lparr>filterId = ''default'',
       blackList = [Obj ''spam'' (Some 86400000), Obj ''am'' (Some 172800000), Str ''pa''],
       whiteList = [''ham''], createdAt = 0, updatedAt = 0, isActive = True\<rparr>]
     ''Spam'' noOptions) = Some (BlockedUntil 172800000)"
proof -
  let ?f = "\<lparr>filterId = ''default'',
             blackList = [Obj ''spam'' (Some 86400000), Obj ''am'' (Some 172800000), Str ''pa''],
             whiteList = [''ham''], createdAt = 0, updatedAt = 0, isActive = True\<rparr>"
  have a: "allowMatches noOptions ''Spam'' [?f] = []"
    by code_simp
  have d: "denyMatches 1000 noOptions ''Spam'' [?f] =
             [Obj ''spam'' (Some 86400000), Obj ''am'' (Some 172800000), Str ''pa'']"
    by code_simp
  have d': "denyMatches 1000 noOptions ''Spam'' [?f] \<noteq> []"
    by (simp add: d)
  have l: "lastExpiry [Obj ''spam'' (Some 86400000), Obj ''am'' (Some 172800000), Str ''pa''] =
             Some 172800000"
    by (simp add: lastExpiry_def)
  show ?thesis
    using blacklist_verdict_last_expiry [OF a d'] a d l by simp
qed

text \<open>
  The claim as the spec words it, with the first deny match that carries an expiry, fails:
  two timed entries match the text, the first in scan order expires one day after the
  epoch, the second two days after it, and the message is the second entry's.
\<close>

theorem blacklist_verdict_first_expiry_counterexample:
  "matchedBlackList (checkString 1000
     [\<lparr>filterId = ''default'',
       blackList = [Obj ''spam'' (Some 86400000), Obj ''am'' (Some 172800000)],
       whiteList = [], createdAt = 0, updatedAt = 0, isActive = True\<rparr>]
     ''spam'' noOptions) = [Obj ''spam'' (Some 86400000), Obj ''am'' (Some 172800000)] \<and>
   matchedWhiteList (checkString 1000
     [\<lparr>filterId = ''default'',
       blackList = [Obj ''spam'' (Some 86400000), Obj ''am'' (Some 172800000)],
       whiteList = [], createdAt = 0, updatedAt = 0, isActive = True\<rparr>]
     ''spam'' noOptions) = [] \<and>
   reason (checkString 1000
     [\<lparr>filterId = ''default'',
       blackList = [Obj ''spam'' (Some 86400000), Obj ''am'' (Some 172800000)],
       whiteList = [], createdAt = 0, updatedAt = 0, isActive = True\<rparr>]
     ''spam'' noOptions) = Blacklist \<and>
   expirationReason (checkString 1000
     [\<lparr>filterId = ''default'',
       blackList = [Obj ''spam'' (Some 86400000), Obj ''am'' (Some 172800000)],
       whiteList = [], createdAt = 0, updatedAt = 0, isActive = True\<rparr>]
     ''spam'' noOptions) \<noteq> Some (BlockedUntil 86400000)"
  by code_simp

section \<open>Properties of the table mutations\<close>

subsection \<open>De-duplication on insert\<close>

lemma keepFirst_set: "set s1 = set s2 \<Longrightarrow> keepFirst s1 xs = keepFirst s2 xs"
proof (induction xs arbitrary: s1 s2)
  case Nil
  show ?case by simp
next
  case (Cons v vs)
  have a: "keepFirst (normalizeItem v # s1) vs = keepFirst (normalizeItem v # s2) vs"
    by (rule Cons.IH) (simp add: Cons.prems)
  have b: "keepFirst s1 vs = keepFirst s2 vs"
    by (rule Cons.IH) (rule Cons.prems)
  show ?case by (simp add: a b Cons.prems)
qed

lemma findIndex_at:
  "findIndex P (pre @ v # vs) = Some (length pre) \<longleftrightarrow> P v \<and> (\<forall>x\<in>set pre. \<not> P x)"
  by (induction pre) auto

lemma dedupe_gen:
  "map snd (filter (\<lambda>(index, v).
        Some index = findIndex (\<lambda>t. normalizeItem t = normalizeItem v) (pre @ xs))
      (enumerate (length pre) xs)) = keepFirst (map normalizeItem pre) xs"
proof (induction xs arbitrary: pre)
  case Nil
  show ?case by simp
next
  case (Cons v vs)
  have here: "Some (length pre) = findIndex (\<lambda>t. normalizeItem t = normalizeItem v) (pre @ v # vs)
        \<longleftrightarrow> normalizeItem v \<notin> set (map normalizeItem pre)"
    unfolding eq_commute [of "Some (length pre)"] findIndex_at by (auto simp: image_iff)
  have IH: "map snd (filter (\<lambda>(index, w).
        Some index = findIndex (\<lambda>t. normalizeItem t = normalizeItem w) (pre @ v # vs))
      (enumerate (Suc (length pre)) vs)) = keepFirst (map normalizeItem (pre @ [v])) vs"
    using Cons [of "pre @ [v]"] by simp
  have perm: "keepFirst (map normalizeItem (pre @ [v])) vs =
              keepFirst (normalizeItem v # map normalizeItem pre) vs"
    by (rule keepFirst_set) auto
  have seen: "normalizeItem v \<in> set (map normalizeItem pre) \<Longrightarrow>
              keepFirst (map normalizeItem (pre @ [v])) vs = keepFirst (map normalizeItem pre) vs"
    by (rule keepFirst_set) auto
  show ?case
  proof (cases "normalizeItem v \<in> set (map normalizeItem pre)")
    case True
    with here IH seen show ?thesis by simp
  next
    case False
    with here IH perm show ?thesis by simp
  qed
qed

lemma dedupeBlackList_keepFirst: "dedupeBlackList xs = keepFirst [] xs"
  using dedupe_gen [of "[]" xs] by (simp add: dedupeBlackList_def)

lemma filter_keepFirst:
  "filter (\<lambda>t. normalizeItem t = k) (keepFirst seen xs) =
     (if k \<in> set seen then []
      else case find (\<lambda>t. normalizeItem t = k) xs of None \<Rightarrow> [] | Some e \<Rightarrow> [e])"
  by (induction xs arbitrary: seen) auto

lemma filter_dedupeBlackList:
  "filter (\<lambda>t. normalizeItem t = k) (dedupeBlackList xs) =
     (case find (\<lambda>t. normalizeItem t = k) xs of None \<Rightarrow> [] | Some e \<Rightarrow> [e])"
  by (simp add: dedupeBlackList_keepFirst filter_keepFirst)

lemma find_append_Some: "find P xs = Some e \<Longrightarrow> find P (xs @ ys) = Some e"
  by (induction xs) (auto split: if_splits)

lemma find_findIndex_update:
  "find P xs = Some f \<Longrightarrow> P (g f) \<Longrightarrow>
     (case findIndex P xs of None \<Rightarrow> False
      | Some i \<Rightarrow> find P (xs[i := g (xs ! i)]) = Some (g f))"
  by (induction xs) (auto split: option.splits if_splits)

lemma getFilter_mutateFilter:
  assumes "getFilter fid m = Some f" and "filterId (g f) = fid"
  shows "fst (mutateFilter fid g m) \<and> getFilter fid (snd (mutateFilter fid g m)) = Some (g f)"
  using find_findIndex_update [of "\<lambda>f. filterId f = fid" "filters m" f g] assms
  by (auto simp: getFilter_def mutateFilter_def saveFilters_def split: option.splits)

text \<open>
  C4, as the code has it. For an existing filter set, when \<^verbatim>\<open>addToBlackList\<close> inserts
  an item whose trimmed text is the trimmed text of an existing deny entry, the resulting
  deny list holds exactly one entry with that identity, and it is the first entry of the
  old list with that identity, unchanged: the existing entry's expiry metadata stays and
  the newly built entry is dropped.
\<close>

theorem addToBlackList_collision_keeps_first:
  assumes "getFilter fid m = Some f"
    and "item \<in> set items"
    and "find (\<lambda>t. normalizeItem t = trim item) (blackList f) = Some e"
  shows "\<exists>f'. getFilter fid (snd (addToBlackList now fid items expiresInSeconds m)) = Some f' \<and>
           filter (\<lambda>t. normalizeItem t = trim item) (blackList f') = [e]"
proof -
  let ?g = "\<lambda>f. f\<lparr>blackList :=
                 dedupeBlackList (blackList f @ map (newBlackListItem now expiresInSeconds) items),
               updatedAt := now\<rparr>"
  from assms(1) have "filterId f = fid"
    by (auto simp: getFilter_def dest: find_Some_iff [THEN iffD1])
  then have "filterId (?g f) = fid" by simp
  with getFilter_mutateFilter [of fid m f ?g] assms(1)
  have "getFilter fid (snd (addToBlackList now fid items expiresInSeconds m)) = Some (?g f)"
    by (simp add: addToBlackList_def)
  moreover have "filter (\<lambda>t. normalizeItem t = trim item) (blackList (?g f)) = [e]"
    by (simp add: filter_dedupeBlackList find_append_Some [OF assms(3)])
  ultimately show ?thesis by blast
qed

theorem addToBlackList_collision_keeps_first_witness:
  "getFilter ''default''
     \<lparr>filters = [\<lparr>filterId = ''default'', blackList = [Obj ''spam'' (Some 5000), Str ''ham''],
                   whiteList = [], createdAt = 0, updatedAt = 0, isActive = True\<rparr>],
      saved = []\<rparr> =
     Some \<lparr>filterId = ''default'', blackList = [Obj ''spam'' (Some 5000), Str ''ham''],
           whiteList = [], createdAt = 0, updatedAt = 0, isActive = True\<rparr> \<and>
   find (\<lambda>t. normalizeItem t = trim '' spam '') [Obj ''spam'' (Some 5000), Str ''ham''] =
     Some (Obj ''spam'' (Some 5000)) \<and>
   (\<exists>f'. getFilter ''default'' (snd (addToBlackList 1000 ''default'' ['' spam '', ''eggs''] None
       \<lparr>filters = [\<lparr>filterId = ''default'',
                     blackList = [Obj ''spam'' (Some 5000), Str ''ham''],
                     whiteList = [], createdAt = 0, updatedAt = 0, isActive = True\<rparr>],
        saved = []\<rparr>)) = Some f' \<and>
      filter (\<lambda>t. normalizeItem t = trim '' spam '') (blackList f') =
        [Obj ''spam'' (Some 5000)])"
proof -
  let ?f = "\<lparr>filterId = ''default'', blackList = [Obj ''spam'' (Some 5000), Str ''ham''],
             whiteList = [], createdAt = 0, updatedAt = 0, isActive = True\<rparr>"
  let ?m = "\<lparr>filters = [?f], saved = []\<rparr>"
  have h1: "getFilter ''default'' ?m = Some ?f"
    by (simp add: getFilter_def)
  have h2: "'' spam '' \<in> set ['' spam '', ''eggs'']"
    by simp
  have h3: "find (\<lambda>t. normalizeItem t = trim '' spam '') (blackList ?f) =
              Some (Obj ''spam'' (Some 5000))"
    by (simp add: trim_def isWhiteSpace_def)
  show ?thesis
    using addToBlackList_collision_keeps_first
      [OF h1 h2 h3, where now = 1000 and expiresInSeconds = None] h1 h3
    by simp
qed

text \<open>
  The claim as the spec words it, with the later entry's expiry metadata kept, fails: the
  table holds the permanent entry \<^verbatim>\<open>spam\<close>, the same text is inserted with a time to
  live of 60 seconds at time 1000, and the list afterwards still holds the permanent entry
  and not the timed one built for the insertion.
\<close>

theorem addToBlackList_collision_counterexample:
  "newBlackListItem 1000 (Some 60) '' spam '' = Obj ''spam'' (Some 61000) \<and>
   map blackList (filters (snd (addToBlackList 1000 ''default'' ['' spam ''] (Some 60)
     \<lparr>filters = [\<lparr>filterId = ''default'', blackList = [Str ''spam''], whiteList = [],
                   createdAt = 0, updatedAt = 0, isActive = True\<rparr>],
      saved = []\<rparr>))) = [[Str ''spam'']]"
  by code_simp

subsection \<open>Filters created under one id\<close>

lemma findIndex_snoc: "list_ex P xs \<Longrightarrow> findIndex P (xs @ ys) = findIndex P xs"
  by (induction xs) auto

lemma findIndex_Some_less: "findIndex P xs = Some i \<Longrightarrow> i < length xs"
  by (induction xs arbitrary: i) (auto split: if_splits)

lemma findIndex_ex: "list_ex P xs \<Longrightarrow> \<exists>i. findIndex P xs = Some i"
  by (induction xs) auto

lemma filters_mutateFilter:
  "filters (snd (mutateFilter fid g m)) =
     (case findIndex (\<lambda>f. filterId f = fid) (filters m) of
        None \<Rightarrow> filters m
      | Some i \<Rightarrow> (filters m)[i := g (filters m ! i)])"
  by (simp add: mutateFilter_def saveFilters_def split: option.splits)

lemma mutateFilter_snoc:
  assumes "list_ex (\<lambda>f. filterId f = fid) (filters m)" and "filters m' = filters m @ [y]"
  shows "filters (snd (mutateFilter fid g m')) = filters (snd (mutateFilter fid g m)) @ [y]"
proof -
  from findIndex_ex [OF assms(1)] obtain i
    where i: "findIndex (\<lambda>f. filterId f = fid) (filters m) = Some i" by blast
  then have "i < length (filters m)" by (rule findIndex_Some_less)
  then show ?thesis
    by (simp add: filters_mutateFilter assms(2) findIndex_snoc [OF assms(1)] i
        list_update_append1 nth_append)
qed

lemma filters_deleteFilter:
  "filters (snd (deleteFilter fid m)) =
     (case findIndex (\<lambda>f. filterId f = fid) (filters m) of
        None \<Rightarrow> filters m
      | Some i \<Rightarrow> take i (filters m) @ drop (Suc i) (filters m))"
  by (simp add: deleteFilter_def saveFilters_def split: option.splits)

lemma deleteFilter_snoc:
  assumes "list_ex (\<lambda>f. filterId f = fid) (filters m)" and "filters m' = filters m @ [y]"
  shows "filters (snd (deleteFilter fid m')) = filters (snd (deleteFilter fid m)) @ [y]"
proof -
  from findIndex_ex [OF assms(1)] obtain i
    where i: "findIndex (\<lambda>f. filterId f = fid) (filters m) = Some i" by blast
  then have "i < length (filters m)" by (rule findIndex_Some_less)
  then show ?thesis
    by (simp add: filters_deleteFilter assms(2) findIndex_snoc [OF assms(1)] i)
qed

lemma find_app:
  "find P (xs @ ys) = (case find P xs of Some x \<Rightarrow> Some x | None \<Rightarrow> find P ys)"
  by (induction xs) auto

lemma findIndex_None_list_ex: "findIndex P xs = None \<longleftrightarrow> \<not> list_ex P xs"
  by (induction xs) auto

lemma update_findIndex: "findIndex P xs = Some i \<Longrightarrow> xs[i := g (xs ! i)] = changeFirst P g xs"
  by (induction xs arbitrary: i) (auto split: if_splits)

lemma take_drop_findIndex:
  "findIndex P xs = Some i \<Longrightarrow> take i xs @ drop (Suc i) xs = removeFirst P xs"
  by (induction xs arbitrary: i) (auto split: if_splits)

lemma changeFirst_append: "list_ex P xs \<Longrightarrow> changeFirst P g (xs @ ys) = changeFirst P g xs @ ys"
  by (induction xs) auto

lemma removeFirst_append: "list_ex P xs \<Longrightarrow> removeFirst P (xs @ ys) = removeFirst P xs @ ys"
  by (induction xs) auto

lemma changeFirst_snoc:
  "P y \<Longrightarrow> changeFirst P g (xs @ [y]) =
     (case find P xs of None \<Rightarrow> xs @ [g y] | Some f0 \<Rightarrow> changeFirst P g xs @ [y])"
  by (induction xs) (auto split: option.splits)

lemma removeFirst_snoc:
  "P y \<Longrightarrow> removeFirst P (xs @ [y]) =
     (case find P xs of None \<Rightarrow> xs | Some f0 \<Rightarrow> removeFirst P xs @ [y])"
  by (induction xs) (auto split: option.splits)

lemma mutateFilter_eq:
  "mutateFilter fid g m =
     (if list_ex (\<lambda>f. filterId f = fid) (filters m)
      then (True, m\<lparr>filters := changeFirst (\<lambda>f. filterId f = fid) g (filters m),
                     saved := saved m @ [changeFirst (\<lambda>f. filterId f = fid) g (filters m)]\<rparr>)
      else (False, m))"
proof (cases "findIndex (\<lambda>f. filterId f = fid) (filters m)")
  case None
  then show ?thesis
    by (simp add: mutateFilter_def findIndex_None_list_ex [symmetric])
next
  case (Some i)
  then have "list_ex (\<lambda>f. filterId f = fid) (filters m)"
    using findIndex_None_list_ex [of "\<lambda>f. filterId f = fid" "filters m"] by simp
  with Some show ?thesis
    by (simp add: mutateFilter_def saveFilters_def update_findIndex)
qed

lemma deleteFilter_eq:
  "deleteFilter fid m =
     (if list_ex (\<lambda>f. filterId f = fid) (filters m)
      then (True, m\<lparr>filters := removeFirst (\<lambda>f. filterId f = fid) (filters m),
                     saved := saved m @ [removeFirst (\<lambda>f. filterId f = fid) (filters m)]\<rparr>)
      else (False, m))"
proof (cases "findIndex (\<lambda>f. filterId f = fid) (filters m)")
  case None
  then show ?thesis
    by (simp add: deleteFilter_def findIndex_None_list_ex [symmetric])
next
  case (Some i)
  then have "list_ex (\<lambda>f. filterId f = fid) (filters m)"
    using findIndex_None_list_ex [of "\<lambda>f. filterId f = fid" "filters m"] by simp
  with Some show ?thesis
    by (simp add: deleteFilter_def saveFilters_def take_drop_findIndex)
qed

lemma mutateFilter_after_snoc:
  assumes "list_ex (\<lambda>f. filterId f = fid) xs" and "filters m' = xs @ [y]"
  shows "mutateFilter fid g m' =
     (True, m'\<lparr>filters := changeFirst (\<lambda>f. filterId f = fid) g xs @ [y],
                saved := saved m' @ [changeFirst (\<lambda>f. filterId f = fid) g xs @ [y]]\<rparr>)"
proof -
  from assms have "list_ex (\<lambda>f. filterId f = fid) (filters m')" by (auto simp: list_ex_iff)
  then show ?thesis
    by (simp add: mutateFilter_eq assms(2) changeFirst_append [OF assms(1)])
qed

lemma deleteFilter_after_snoc:
  assumes "list_ex (\<lambda>f. filterId f = fid) xs" and "filters m' = xs @ [y]"
  shows "deleteFilter fid m' =
     (True, m'\<lparr>filters := removeFirst (\<lambda>f. filterId f = fid) xs @ [y],
                saved := saved m' @ [removeFirst (\<lambda>f. filterId f = fid) xs @ [y]]\<rparr>)"
proof -
  from assms have "list_ex (\<lambda>f. filterId f = fid) (filters m')" by (auto simp: list_ex_iff)
  then show ?thesis
    by (simp add: deleteFilter_eq assms(2) removeFirst_append [OF assms(1)])
qed

text \<open>
  C9. Every call of \<^verbatim>\<open>createFilter\<close> returns a filter with the id \<^verbatim>\<open>default\<close> and
  appends it to the table. After two calls the table ends with two filters of that id;
  \<^verbatim>\<open>getFilter\<close> returns the first filter of that id (the first-created one, unless the
  table held a filter of that id before). Called with that id, \<^verbatim>\<open>updateFilter\<close>,
  \<^verbatim>\<open>addToBlackList\<close>, \<^verbatim>\<open>addToWhiteList\<close>, \<^verbatim>\<open>removeFromBlackList\<close>,
  \<^verbatim>\<open>removeFromWhiteList\<close> and \<^verbatim>\<open>toggleFilter\<close> return \<^verbatim>\<open>true\<close>, make their
  change on the first filter of that id and on no other, and save the table;
  \<^verbatim>\<open>deleteFilter\<close> returns \<^verbatim>\<open>true\<close>, removes the first filter of that id and saves the
  table. That first filter is the first-created one when the table held no filter of that
  id before, and a filter of the earlier table otherwise. The second-created filter stays
  last in the table, as created, and each operation acts on the rest as it does on the
  table before the second call.
\<close>

theorem createFilter_twice:
  "let r1 = createFilter t1 b1 w1 m; f1 = fst r1; m1 = snd r1;
       r2 = createFilter t2 b2 w2 m1; f2 = fst r2; m2 = snd r2;
       isDefault = (\<lambda>f. filterId f = ''default'');
       changed = (\<lambda>g. changeFirst isDefault g (filters m1) @ [f2]);
       removed = removeFirst isDefault (filters m1) @ [f2]
   in filterId f1 = ''default'' \<and> filterId f2 = ''default'' \<and>
      filters m1 = filters m @ [f1] \<and>
      filters m2 = filters m @ [f1, f2] \<and>
      getFilter ''default'' m2 =
        Some (case getFilter ''default'' m of Some f0 \<Rightarrow> f0 | None \<Rightarrow> f1) \<and>
      filters (snd (updateFilter t ''default'' bl wl m2)) =
        filters (snd (updateFilter t ''default'' bl wl m1)) @ [f2] \<and>
      filters (snd (addToBlackList t ''default'' items ttl m2)) =
        filters (snd (addToBlackList t ''default'' items ttl m1)) @ [f2] \<and>
      filters (snd (addToWhiteList t ''default'' items m2)) =
        filters (snd (addToWhiteList t ''default'' items m1)) @ [f2] \<and>
      filters (snd (removeFromBlackList t ''default'' items m2)) =
        filters (snd (removeFromBlackList t ''default'' items m1)) @ [f2] \<and>
      filters (snd (removeFromWhiteList t ''default'' items m2)) =
        filters (snd (removeFromWhiteList t ''default'' items m1)) @ [f2] \<and>
      filters (snd (toggleFilter t ''default'' active m2)) =
        filters (snd (toggleFilter t ''default'' active m1)) @ [f2] \<and>
      filters (snd (deleteFilter ''default'' m2)) =
        filters (snd (deleteFilter ''default'' m1)) @ [f2] \<and>
      changeFirst isDefault g (filters m1) =
        (case getFilter ''default'' m of
           None \<Rightarrow> filters m @ [g f1]
         | Some f0 \<Rightarrow> changeFirst isDefault g (filters m) @ [f1]) \<and>
      removeFirst isDefault (filters m1) =
        (case getFilter ''default'' m of
           None \<Rightarrow> filters m
         | Some f0 \<Rightarrow> removeFirst isDefault (filters m) @ [f1]) \<and>
      updateFilter t ''default'' bl wl m2 =
        (True,
         m2\<lparr>filters :=
              changed (\<lambda>f. f\<lparr>blackList := (case bl of
                                               None \<Rightarrow> blackList f
                                             | Some b \<Rightarrow> map (\<lambda>item. Str (trim item)) b),
                             whiteList := (case wl of
                                               None \<Rightarrow> whiteList f
                                             | Some w \<Rightarrow> map trim w),
                             updatedAt := t\<rparr>),
            saved := saved m2 @
              [changed (\<lambda>f. f\<lparr>blackList := (case bl of
                                                None \<Rightarrow> blackList f
                                              | Some b \<Rightarrow> map (\<lambda>item. Str (trim item)) b),
                              whiteList := (case wl of
                                                None \<Rightarrow> whiteList f
                                              | Some w \<Rightarrow> map trim w),
                              updatedAt := t\<rparr>)]\<rparr>) \<and>
      addToBlackList t ''default'' items ttl m2 =
        (True,
         m2\<lparr>filters :=
              changed (\<lambda>f. f\<lparr>blackList :=
                               dedupeBlackList (blackList f @ map (newBlackListItem t ttl) items),
                             updatedAt := t\<rparr>),
            saved := saved m2 @
              [changed (\<lambda>f. f\<lparr>blackList :=
                                dedupeBlackList (blackList f @ map (newBlackListItem t ttl) items),
                              updatedAt := t\<rparr>)]\<rparr>) \<and>
      addToWhiteList t ''default'' items m2 =
        (True,
         m2\<lparr>filters :=
              changed (\<lambda>f. f\<lparr>whiteList :=
                               whiteList f @
                               filter (\<lambda>item. item \<notin> set (whiteList f)) (map trim items),
                             updatedAt := t\<rparr>),
            saved := saved m2 @
              [changed (\<lambda>f. f\<lparr>whiteList :=
                                whiteList f @
                                filter (\<lambda>item. item \<notin> set (whiteList f)) (map trim items),
                              updatedAt := t\<rparr>)]\<rparr>) \<and>
      removeFromBlackList t ''default'' items m2 =
        (True,
         m2\<lparr>filters :=
              changed (\<lambda>f. f\<lparr>blackList :=
                               filter (\<lambda>b. normalizeItem b \<notin> set (map trim items)) (blackList f),
                             updatedAt := t\<rparr>),
            saved := saved m2 @
              [changed (\<lambda>f. f\<lparr>blackList :=
                                filter (\<lambda>b. normalizeItem b \<notin> set (map trim items)) (blackList f),
                              updatedAt := t\<rparr>)]\<rparr>) \<and>
      removeFromWhiteList t ''default'' items m2 =
        (True,
         m2\<lparr>filters :=
              changed (\<lambda>f. f\<lparr>whiteList :=
                               filter (\<lambda>w. w \<notin> set (map trim items)) (whiteList f),
                             updatedAt := t\<rparr>),
            saved := saved m2 @
              [changed (\<lambda>f. f\<lparr>whiteList :=
                                filter (\<lambda>w. w \<notin> set (map trim items)) (whiteList f),
                              updatedAt := t\<rparr>)]\<rparr>) \<and>
      toggleFilter t ''default'' active m2 =
        (True,
         m2\<lparr>filters :=
              changed (\<lambda>f. f\<lparr>isActive := (case active of Some a \<Rightarrow> a | None \<Rightarrow> \<not> isActive f),
                             updatedAt := t\<rparr>),
            saved := saved m2 @
              [changed (\<lambda>f. f\<lparr>isActive := (case active of Some a \<Rightarrow> a | None \<Rightarrow> \<not> isActive f),
                              updatedAt := t\<rparr>)]\<rparr>) \<and>
      deleteFilter ''default'' m2 =
        (True, m2\<lparr>filters := removed, saved := saved m2 @ [removed]\<rparr>)"
proof -
  define f1 where "f1 = fst (createFilter t1 b1 w1 m)"
  define m1 where "m1 = snd (createFilter t1 b1 w1 m)"
  define f2 where "f2 = fst (createFilter t2 b2 w2 m1)"
  define m2 where "m2 = snd (createFilter t2 b2 w2 m1)"
  have id1: "filterId f1 = ''default''" and id2: "filterId f2 = ''default''"
    by (simp_all add: f1_def f2_def createFilter_def Let_def)
  have t1: "filters m1 = filters m @ [f1]"
    by (simp add: m1_def f1_def createFilter_def saveFilters_def Let_def)
  have t2: "filters m2 = filters m1 @ [f2]"
    by (simp add: m2_def f2_def createFilter_def saveFilters_def Let_def)
  have t12: "filters m2 = filters m @ [f1, f2]"
    by (simp add: t1 t2)
  have ex: "list_ex (\<lambda>f. filterId f = ''default'') (filters m1)"
    by (simp add: t1 id1 list_ex_iff)
  have gf: "getFilter ''default'' m2 =
        Some (case getFilter ''default'' m of Some f0 \<Rightarrow> f0 | None \<Rightarrow> f1)"
    by (simp add: getFilter_def t2 t1 find_app id1 split: option.splits)
  note ops = updateFilter_def addToBlackList_def addToWhiteList_def removeFromBlackList_def
    removeFromWhiteList_def toggleFilter_def
  have o1: "filters (snd (updateFilter t ''default'' bl wl m2)) =
        filters (snd (updateFilter t ''default'' bl wl m1)) @ [f2]"
    and o2: "filters (snd (addToBlackList t ''default'' items ttl m2)) =
        filters (snd (addToBlackList t ''default'' items ttl m1)) @ [f2]"
    and o3: "filters (snd (addToWhiteList t ''default'' items m2)) =
        filters (snd (addToWhiteList t ''default'' items m1)) @ [f2]"
    and o4: "filters (snd (removeFromBlackList t ''default'' items m2)) =
        filters (snd (removeFromBlackList t ''default'' items m1)) @ [f2]"
    and o5: "filters (snd (removeFromWhiteList t ''default'' items m2)) =
        filters (snd (removeFromWhiteList t ''default'' items m1)) @ [f2]"
    and o6: "filters (snd (toggleFilter t ''default'' active m2)) =
        filters (snd (toggleFilter t ''default'' active m1)) @ [f2]"
    unfolding ops by (rule mutateFilter_snoc [OF ex t2])+
  have o7: "filters (snd (deleteFilter ''default'' m2)) =
        filters (snd (deleteFilter ''default'' m1)) @ [f2]"
    by (rule deleteFilter_snoc [OF ex t2])
  have cf: "changeFirst (\<lambda>f. filterId f = ''default'') g (filters m1) =
        (case getFilter ''default'' m of
           None \<Rightarrow> filters m @ [g f1]
         | Some f0 \<Rightarrow> changeFirst (\<lambda>f. filterId f = ''default'') g (filters m) @ [f1])"
    unfolding t1 getFilter_def by (rule changeFirst_snoc) (rule id1)
  have rf: "removeFirst (\<lambda>f. filterId f = ''default'') (filters m1) =
        (case getFilter ''default'' m of
           None \<Rightarrow> filters m
         | Some f0 \<Rightarrow> removeFirst (\<lambda>f. filterId f = ''default'') (filters m) @ [f1])"
    unfolding t1 getFilter_def by (rule removeFirst_snoc) (rule id1)
  have upd: "(\<lambda>f. let f1 = (case bl of None \<Rightarrow> f
                                | Some b \<Rightarrow> f\<lparr>blackList := map (\<lambda>item. Str (trim item)) b\<rparr>);
                      f2 = (case wl of None \<Rightarrow> f1 | Some w \<Rightarrow> f1\<lparr>whiteList := map trim w\<rparr>)
                  in f2\<lparr>updatedAt := t\<rparr>) =
        (\<lambda>f. f\<lparr>blackList := (case bl of
                                 None \<Rightarrow> blackList f
                               | Some b \<Rightarrow> map (\<lambda>item. Str (trim item)) b),
               whiteList := (case wl of
                                 None \<Rightarrow> whiteList f
                               | Some w \<Rightarrow> map trim w),
               updatedAt := t\<rparr>)"
    by (rule ext) (simp add: Let_def split: option.splits)
  have rb: "(\<lambda>blackItem. \<not> list_ex (\<lambda>removeItem. normalizeItem blackItem = trim removeItem) items) =
        (\<lambda>b. normalizeItem b \<notin> set (map trim items))"
    by (rule ext) (auto simp: list_ex_iff)
  have rw: "(\<lambda>whiteItem. \<not> list_ex (\<lambda>removeItem. whiteItem = trim removeItem) items) =
        (\<lambda>w. w \<notin> set (map trim items))"
    by (rule ext) (auto simp: list_ex_iff)
  have n1: "updateFilter t ''default'' bl wl m2 =
        (True,
         m2\<lparr>filters :=
              changeFirst (\<lambda>f. filterId f = ''default'')
                (\<lambda>f. f\<lparr>blackList := (case bl of
                                         None \<Rightarrow> blackList f
                                       | Some b \<Rightarrow> map (\<lambda>item. Str (trim item)) b),
                       whiteList := (case wl of
                                         None \<Rightarrow> whiteList f
                                       | Some w \<Rightarrow> map trim w),
                       updatedAt := t\<rparr>) (filters m1) @ [f2],
            saved := saved m2 @
              [changeFirst (\<lambda>f. filterId f = ''default'')
                (\<lambda>f. f\<lparr>blackList := (case bl of
                                         None \<Rightarrow> blackList f
                                       | Some b \<Rightarrow> map (\<lambda>item. Str (trim item)) b),
                       whiteList := (case wl of
                                         None \<Rightarrow> whiteList f
                                       | Some w \<Rightarrow> map trim w),
                       updatedAt := t\<rparr>) (filters m1) @ [f2]]\<rparr>)"
    unfolding updateFilter_def upd by (rule mutateFilter_after_snoc [OF ex t2])
  have n2: "addToBlackList t ''default'' items ttl m2 =
        (True,
         m2\<lparr>filters :=
              changeFirst (\<lambda>f. filterId f = ''default'')
                (\<lambda>f. f\<lparr>blackList :=
                         dedupeBlackList (blackList f @ map (newBlackListItem t ttl) items),
                       updatedAt := t\<rparr>) (filters m1) @ [f2],
            saved := saved m2 @
              [changeFirst (\<lambda>f. filterId f = ''default'')
                (\<lambda>f. f\<lparr>blackList :=
                         dedupeBlackList (blackList f @ map (newBlackListItem t ttl) items),
                       updatedAt := t\<rparr>) (filters m1) @ [f2]]\<rparr>)"
    unfolding addToBlackList_def by (rule mutateFilter_after_snoc [OF ex t2])
  have n3: "addToWhiteList t ''default'' items m2 =
        (True,
         m2\<lparr>filters :=
              changeFirst (\<lambda>f. filterId f = ''default'')
                (\<lambda>f. f\<lparr>whiteList :=
                         whiteList f @
                         filter (\<lambda>item. item \<notin> set (whiteList f)) (map trim items),
                       updatedAt := t\<rparr>) (filters m1) @ [f2],
            saved := saved m2 @
              [changeFirst (\<lambda>f. filterId f = ''default'')
                (\<lambda>f. f\<lparr>whiteList :=
                         whiteList f @
                         filter (\<lambda>item. item \<notin> set (whiteList f)) (map trim items),
                       updatedAt := t\<rparr>) (filters m1) @ [f2]]\<rparr>)"
    unfolding addToWhiteList_def by (rule mutateFilter_after_snoc [OF ex t2])
  have n4: "removeFromBlackList t ''default'' items m2 =
        (True,
         m2\<lparr>filters :=
              changeFirst (\<lambda>f. filterId f = ''default'')
                (\<lambda>f. f\<lparr>blackList :=
                         filter (\<lambda>b. normalizeItem b \<notin> set (map trim items)) (blackList f),
                       updatedAt := t\<rparr>) (filters m1) @ [f2],
            saved := saved m2 @
              [changeFirst (\<lambda>f. filterId f = ''default'')
                (\<lambda>f. f\<lparr>blackList :=
                         filter (\<lambda>b. normalizeItem b \<notin> set (map trim items)) (blackList f),
                       updatedAt := t\<rparr>) (filters m1) @ [f2]]\<rparr>)"
    unfolding removeFromBlackList_def rb by (rule mutateFilter_after_snoc [OF ex t2])
  have n5: "removeFromWhiteList t ''default'' items m2 =
        (True,
         m2\<lparr>filters :=
              changeFirst (\<lambda>f. filterId f = ''default'')
                (\<lambda>f. f\<lparr>whiteList := filter (\<lambda>w. w \<notin> set (map trim items)) (whiteList f),
                       updatedAt := t\<rparr>) (filters m1) @ [f2],
            saved := saved m2 @
              [changeFirst (\<lambda>f. filterId f = ''default'')
                (\<lambda>f. f\<lparr>whiteList := filter (\<lambda>w. w \<notin> set (map trim items)) (whiteList f),
                       updatedAt := t\<rparr>) (filters m1) @ [f2]]\<rparr>)"
    unfolding removeFromWhiteList_def rw by (rule mutateFilter_after_snoc [OF ex t2])
  have n6: "toggleFilter t ''default'' active m2 =
        (True,
         m2\<lparr>filters :=
              changeFirst (\<lambda>f. filterId f = ''default'')
                (\<lambda>f. f\<lparr>isActive := (case active of Some a \<Rightarrow> a | None \<Rightarrow> \<not> isActive f),
                       updatedAt := t\<rparr>) (filters m1) @ [f2],
            saved := saved m2 @
              [changeFirst (\<lambda>f. filterId f = ''default'')
                (\<lambda>f. f\<lparr>isActive := (case active of Some a \<Rightarrow> a | None \<Rightarrow> \<not> isActive f),
                       updatedAt := t\<rparr>) (filters m1) @ [f2]]\<rparr>)"
    unfolding toggleFilter_def by (rule mutateFilter_after_snoc [OF ex t2])
  have n7: "deleteFilter ''default'' m2 =
        (True,
         m2\<lparr>filters := removeFirst (\<lambda>f. filterId f = ''default'') (filters m1) @ [f2],
            saved := saved m2 @
              [removeFirst (\<lambda>f. filterId f = ''default'') (filters m1) @ [f2]]\<rparr>)"
    by (rule deleteFilter_after_snoc [OF ex t2])
  show ?thesis
    unfolding Let_def f1_def [symmetric] m1_def [symmetric] f2_def [symmetric] m2_def [symmetric]
    by (intro conjI)
      (rule id1 id2 t1 t12 gf o1 o2 o3 o4 o5 o6 o7 cf rf n1 n2 n3 n4 n5 n6 n7)+
qed

text \<open>From the empty table: two filters with the id \<^verbatim>\<open>default\<close>; a toggle switches
  the first off and leaves the second on; a delete removes the first; an insertion into
  the deny list succeeds and lands in the first.\<close>

theorem createFilter_twice_witness:
  "map filterId (filters (snd (createFilter 20 [''ham''] []
      (snd (createFilter 10 [''spam''] [] \<lparr>filters = [], saved = []\<rparr>))))) =
     [''default'', ''default''] \<and>
   map isActive (filters (snd (toggleFilter 30 ''default'' None
      (snd (createFilter 20 [''ham''] []
        (snd (createFilter 10 [''spam''] [] \<lparr>filters = [], saved = []\<rparr>))))))) =
     [False, True] \<and>
   map blackList (filters (snd (deleteFilter ''default''
      (snd (createFilter 20 [''ham''] []
        (snd (createFilter 10 [''spam''] [] \<lparr>filters = [], saved = []\<rparr>))))))) =
     [[Str ''ham'']] \<and>
   fst (addToBlackList 30 ''default'' [''eggs''] None
      (snd (createFilter 20 [''ham''] []
        (snd (createFilter 10 [''spam''] [] \<lparr>filters = [], saved = []\<rparr>))))) \<and>
   map blackList (filters (snd (addToBlackList 30 ''default'' [''eggs''] None
      (snd (createFilter 20 [''ham''] []
        (snd (createFilter 10 [''spam''] [] \<lparr>filters = [], saved = []\<rparr>))))))) =
     [[Str ''spam'', Str ''eggs''], [Str ''ham'']]"
proof -
  let ?m0 = "\<lparr>filters = [], saved = []\<rparr> :: FilterManager"
  let ?m1 = "snd (createFilter 10 [''spam''] [] ?m0)"
  let ?f2 = "fst (createFilter 20 [''ham''] [] ?m1)"
  let ?m2 = "snd (createFilter 20 [''ham''] [] ?m1)"
  let ?add = "\<lambda>f. f\<lparr>blackList :=
                      dedupeBlackList (blackList f @ map (newBlackListItem 30 None) [''eggs'']),
                    updatedAt := 30\<rparr>"
  let ?added = "changeFirst (\<lambda>f. filterId f = ''default'') ?add (filters ?m1) @ [?f2]"
  note th = createFilter_twice [where ?t1.0 = 10 and ?b1.0 = "[''spam'']" and ?w1.0 = "[]"
      and m = ?m0 and ?t2.0 = 20 and ?b2.0 = "[''ham'']" and ?w2.0 = "[]" and t = 30
      and active = None and items = "[''eggs'']" and ttl = None, unfolded Let_def]
  from th have t: "filters ?m2 = filters ?m0 @ [fst (createFilter 10 [''spam''] [] ?m0), ?f2]"
    by (rule conjunct2 [THEN conjunct2, THEN conjunct2, THEN conjunct1])
  from th have tg: "filters (snd (toggleFilter 30 ''default'' None ?m2)) =
             filters (snd (toggleFilter 30 ''default'' None ?m1)) @ [?f2]"
    by blast
  from th have dl: "filters (snd (deleteFilter ''default'' ?m2)) =
             filters (snd (deleteFilter ''default'' ?m1)) @ [?f2]"
    by blast
  from th have ad: "addToBlackList 30 ''default'' [''eggs''] None ?m2 =
             (True, ?m2\<lparr>filters := ?added, saved := saved ?m2 @ [?added]\<rparr>)"
    by blast
  have e1: "map filterId (filters ?m0 @ [fst (createFilter 10 [''spam''] [] ?m0), ?f2]) =
             [''default'', ''default'']"
    by code_simp
  have e2: "map isActive (filters (snd (toggleFilter 30 ''default'' None ?m1)) @ [?f2]) =
             [False, True]"
    by code_simp
  have e3: "map blackList (filters (snd (deleteFilter ''default'' ?m1)) @ [?f2]) = [[Str ''ham'']]"
    by code_simp
  have e4: "map blackList ?added = [[Str ''spam'', Str ''eggs''], [Str ''ham'']]"
    by code_simp
  show ?thesis
    unfolding t tg dl ad using e1 e2 e3 e4 by simp
qed

section \<open>Properties of the expiry sweep\<close>

lemma foldl_sweepEntry:
  "foldl (sweepEntry now) acc bl =
     (fst acc @ filter (\<lambda>b. \<not> expiredEntry now b) bl, snd acc \<or> list_ex (expiredEntry now) bl)"
proof (induction bl arbitrary: acc)
  case Nil
  show ?case by simp
next
  case (Cons b bl)
  show ?case
    apply (subst foldl_Cons)
    apply (subst Cons)
    apply (simp add: sweepEntry_def)
    done
qed

lemma filter_shorter: "length (filter P xs) < length xs \<longleftrightarrow> list_ex (\<lambda>x. \<not> P x) xs"
proof (induction xs)
  case Nil
  show ?case by simp
next
  case (Cons x xs)
  have "length (filter P xs) \<le> length xs" by simp
  with Cons show ?case by (auto simp: less_Suc_eq_le)
qed

lemma filter_none_expired:
  "\<not> list_ex (expiredEntry now) bl \<Longrightarrow> filter (\<lambda>b. \<not> expiredEntry now b) bl = bl"
  by (induction bl) auto

lemma sweepFilter_eq:
  "sweepFilter now acc f =
     (fst acc @ [purgeFilter now f], snd acc \<or> list_ex (expiredEntry now) (blackList f))"
  by (simp add: sweepFilter_def foldl_sweepEntry Let_def filter_shorter purgeFilter_def
      filter_none_expired)

lemma foldl_sweepFilter:
  "foldl (sweepFilter now) acc fs =
     (fst acc @ map (purgeFilter now) fs, snd acc \<or> anyExpired now fs)"
proof (induction fs arbitrary: acc)
  case Nil
  show ?case by (simp add: anyExpired_def)
next
  case (Cons f fs)
  show ?case
    apply (subst foldl_Cons)
    apply (subst Cons)
    apply (simp add: sweepFilter_eq anyExpired_def)
    done
qed

lemma purge_none: "\<not> anyExpired now fs \<Longrightarrow> map (purgeFilter now) fs = fs"
  by (induction fs) (auto simp: anyExpired_def purgeFilter_def)

lemma cleanExpired_eq:
  "cleanExpiredBlacklistItems now m =
     (if anyExpired now (filters m)
      then m\<lparr>filters := map (purgeFilter now) (filters m),
             saved := saved m @ [map (purgeFilter now) (filters m)]\<rparr>
      else m)"
  by (simp add: cleanExpiredBlacklistItems_def foldl_sweepFilter Let_def saveFilters_def purge_none)

lemma anyExpired_iff:
  "anyExpired now fs \<longleftrightarrow> (\<exists>f\<in>set fs. \<exists>b\<in>set (blackList f). expiredEntry now b)"
  by (simp add: anyExpired_def list_ex_iff)

lemma blackList_purgeFilter:
  "blackList (purgeFilter now f) = filter (\<lambda>b. \<not> expiredEntry now b) (blackList f)"
  by (simp add: purgeFilter_def filter_none_expired)

text \<open>
  C7. A second run of the sweep, at a time by which no further deny entry has expired
  since the first run, leaves the whole state as the first run left it: the table and the
  record of what was persisted. A run removes exactly the expired deny entries, and it
  persists the table (once, as it is after the run) if it removed at least one entry, and
  does not persist otherwise.
\<close>

theorem sweep_idempotent:
  assumes "\<forall>f\<in>set (filters m). \<forall>b\<in>set (blackList f). expiredEntry now' b \<longrightarrow> expiredEntry now b"
  shows "cleanExpiredBlacklistItems now' (cleanExpiredBlacklistItems now m) =
           cleanExpiredBlacklistItems now m \<and>
         map blackList (filters (cleanExpiredBlacklistItems now m)) =
           map (\<lambda>f. filter (\<lambda>b. \<not> expiredEntry now b) (blackList f)) (filters m) \<and>
         saved (cleanExpiredBlacklistItems now m) =
           (if \<exists>f\<in>set (filters m). \<exists>b\<in>set (blackList f). expiredEntry now b
            then saved m @ [filters (cleanExpiredBlacklistItems now m)]
            else saved m)"
proof -
  have bl: "map blackList (filters (cleanExpiredBlacklistItems now m)) =
           map (\<lambda>f. filter (\<lambda>b. \<not> expiredEntry now b) (blackList f)) (filters m)"
  proof -
    have "map blackList (map (purgeFilter now) (filters m)) =
          map (\<lambda>f. filter (\<lambda>b. \<not> expiredEntry now b) (blackList f)) (filters m)"
      by (simp add: blackList_purgeFilter comp_def)
    then show ?thesis
      by (cases "anyExpired now (filters m)") (simp_all add: cleanExpired_eq purge_none)
  qed
  have "\<not> anyExpired now' (filters (cleanExpiredBlacklistItems now m))"
  proof
    assume "anyExpired now' (filters (cleanExpiredBlacklistItems now m))"
    then obtain bs b where "bs \<in> set (map blackList (filters (cleanExpiredBlacklistItems now m)))"
      and "b \<in> set bs" and "expiredEntry now' b"
      by (auto simp: anyExpired_iff)
    then obtain f where "f \<in> set (filters m)" and "b \<in> set (blackList f)"
      and "\<not> expiredEntry now b" and "expiredEntry now' b"
      unfolding bl by auto
    with assms show False by blast
  qed
  then have "cleanExpiredBlacklistItems now' (cleanExpiredBlacklistItems now m) =
           cleanExpiredBlacklistItems now m"
    by (subst cleanExpired_eq) simp
  moreover note bl
  moreover have "saved (cleanExpiredBlacklistItems now m) =
           (if \<exists>f\<in>set (filters m). \<exists>b\<in>set (blackList f). expiredEntry now b
            then saved m @ [filters (cleanExpiredBlacklistItems now m)]
            else saved m)"
    by (simp add: cleanExpired_eq anyExpired_iff [symmetric])
  ultimately show ?thesis by simp
qed

theorem sweep_idempotent_witness:
  "cleanExpiredBlacklistItems 1500 (cleanExpiredBlacklistItems 1000
     \<lparr>filters = [\<lparr>filterId = ''default'',
                   blackList = [Obj ''a'' (Some 500), Obj ''b'' (Some 2000), Str ''c''],
                   whiteList = [], createdAt = 0, updatedAt = 0, isActive = True\<rparr>],
      saved = []\<rparr>) =
   cleanExpiredBlacklistItems 1000
     \<lparr>filters = [\<lparr>filterId = ''default'',
                   blackList = [Obj ''a'' (Some 500), Obj ''b'' (Some 2000), Str ''c''],
                   whiteList = [], createdAt = 0, updatedAt = 0, isActive = True\<rparr>],
      saved = []\<rparr> \<and>
   cleanExpiredBlacklistItems 1000
     \<lparr>filters = [\<lparr>filterId = ''default'',
                   blackList = [Obj ''a'' (Some 500), Obj ''b'' (Some 2000), Str ''c''],
                   whiteList = [], createdAt = 0, updatedAt = 0, isActive = True\<rparr>],
      saved = []\<rparr> =
     \<lparr>filters = [\<lparr>filterId = ''default'', blackList = [Obj ''b'' (Some 2000), Str ''c''],
                   whiteList = [], createdAt = 0, updatedAt = 1000, isActive = True\<rparr>],
      saved = [[\<lparr>filterId = ''default'', blackList = [Obj ''b'' (Some 2000), Str ''c''],
                   whiteList = [], createdAt = 0, updatedAt = 1000, isActive = True\<rparr>]]\<rparr>"
proof -
  let ?m = "\<lparr>filters = [\<lparr>filterId = ''default'',
                   blackList = [Obj ''a'' (Some 500), Obj ''b'' (Some 2000), Str ''c''],
                   whiteList = [], createdAt = 0, updatedAt = 0, isActive = True\<rparr>],
      saved = []\<rparr>"
  have h: "\<forall>f\<in>set (filters ?m). \<forall>b\<in>set (blackList f).
             expiredEntry 1500 b \<longrightarrow> expiredEntry 1000 b"
    by simp
  have e: "cleanExpiredBlacklistItems 1000 ?m =
     \<lparr>filters = [\<lparr>filterId = ''default'', blackList = [Obj ''b'' (Some 2000), Str ''c''],
                   whiteList = [], createdAt = 0, updatedAt = 1000, isActive = True\<rparr>],
      saved = [[\<lparr>filterId = ''default'', blackList = [Obj ''b'' (Some 2000), Str ''c''],
                   whiteList = [], createdAt = 0, updatedAt = 1000, isActive = True\<rparr>]]\<rparr>"
    by code_simp
  from sweep_idempotent [OF h]
  have "cleanExpiredBlacklistItems 1500 (cleanExpiredBlacklistItems 1000 ?m) =
        cleanExpiredBlacklistItems 1000 ?m"
    by simp
  with e show ?thesis by simp
qed

section \<open>Properties of replace\<close>


lemma stripBackslashes_replacements [simp]:
  "stripBackslashes (config\<lparr>replacements := r\<rparr>) s = stripBackslashes config s"
  by (simp add: stripBackslashes_def)

lemma stripBackslashes_off [simp]:
  "stripBackslashes (config\<lparr>removeBackslashes := False\<rparr>) s = s"
  by (simp add: stripBackslashes_def)







text \<open>The tracking variant returns, when no pattern is empty, and its text is the text
  of \<^verbatim>\<open>replaceInString\<close>.\<close>

lemma foldl_trackingStep:
  "list_all (\<lambda>entry. fst entry \<noteq> []) entries \<Longrightarrow>
   \<exists>trk. foldl (trackingStep subject data) (Some (t, m)) entries =
          Some (applyReplacements entries data t, trk)"
proof (induction entries arbitrary: t m)
  case Nil
  show ?case by (simp add: applyReplacements_def)
next
  case (Cons entry entries)
  from Cons.prems have ne: "fst entry \<noteq> []" and rest: "list_all (\<lambda>entry. fst entry \<noteq> []) entries"
    by simp_all
  obtain t' m' where step: "trackingStep subject data (Some (t, m)) entry = Some (t', m')"
    and t': "t' = replaceAllLiteral (fst entry) (replaceValue data (snd entry)) t"
    using ne by (simp add: trackingStep_def Let_def)
  from Cons.IH [OF rest, of t' m'] show ?case
    by (simp add: step t' applyReplacements_def)
qed

lemma replaceInStringWithTracking_text:
  assumes "list_all (\<lambda>entry. fst entry \<noteq> []) (replacements config)"
  shows "\<exists>trk. replaceInStringWithTracking config subject data m =
           Some (replaceInString config subject data, trk)"
  using foldl_trackingStep [OF assms, of subject data subject m]
  by (auto simp: replaceInStringWithTracking_def replaceInString_def)

















section \<open>Properties of the repetition normalizer\<close>

subsection \<open>The character pass and the runs of a text\<close>

lemma takeWhile_same: "takeWhile (\<lambda>d. d = c) cs = replicate (length (takeWhile (\<lambda>d. d = c) cs)) c"
proof -
  have "\<forall>y\<in>set (takeWhile (\<lambda>d. d = c) cs). y = c"
    by (auto dest: set_takeWhileD)
  then show ?thesis by (simp add: replicate_length_same)
qed

lemma run_split:
  "c # cs = replicate (Suc (length (takeWhile (\<lambda>d. d = c) cs))) c @ dropWhile (\<lambda>d. d = c) cs"
proof -
  have "cs = takeWhile (\<lambda>d. d = c) cs @ dropWhile (\<lambda>d. d = c) cs" by simp
  then have "cs = replicate (length (takeWhile (\<lambda>d. d = c) cs)) c @ dropWhile (\<lambda>d. d = c) cs"
    using takeWhile_same [of c cs] by simp
  then show ?thesis by simp
qed

lemma dropWhile_same_head:
  "dropWhile (\<lambda>d. d = c) cs = [] \<or> hd (dropWhile (\<lambda>d. d = c) cs) \<noteq> c"
  using hd_dropWhile [of "\<lambda>d. d = c" cs] by auto

lemma takeWhile_replicate_app:
  "rest = [] \<or> hd rest \<noteq> c \<Longrightarrow> takeWhile (\<lambda>d. d = c) (replicate k c @ rest) = replicate k c"
  by (induction k) (auto simp: takeWhile_eq_Nil_iff)

lemma dropWhile_replicate_app:
  "rest = [] \<or> hd rest \<noteq> c \<Longrightarrow> dropWhile (\<lambda>d. d = c) (replicate k c @ rest) = rest"
  by (induction k) (auto simp: dropWhile_eq_self_iff)

lemma matchCharRun_run:
  assumes "rest = [] \<or> hd rest \<noteq> c"
  shows "matchCharRun (c # replicate k c @ rest) =
           (if \<not> isLineTerminator c \<and> 2 \<le> k then Some (Suc k) else None)"
  using assms by (simp add: matchCharRun_def takeWhile_replicate_app)

lemma replaceMatches_no_match:
  assumes "rest = [] \<or> hd rest \<noteq> c" and "isLineTerminator c \<or> k < 2"
  shows "replaceMatches matchCharRun f (replicate (Suc k) c @ rest) =
           replicate (Suc k) c @ replaceMatches matchCharRun f rest"
  using assms(2)
proof (induction k)
  case 0
  then show ?case using assms(1) matchCharRun_run [OF assms(1), of 0] by simp
next
  case (Suc k)
  then have "isLineTerminator c \<or> k < 2" by auto
  with Suc.IH have IH: "replaceMatches matchCharRun f (replicate (Suc k) c @ rest) =
           replicate (Suc k) c @ replaceMatches matchCharRun f rest" by simp
  have "matchCharRun (c # replicate (Suc k) c @ rest) = None"
    using matchCharRun_run [OF assms(1), of "Suc k"] Suc.prems by auto
  then have "replaceMatches matchCharRun f (c # replicate (Suc k) c @ rest) =
        c # replaceMatches matchCharRun f (replicate (Suc k) c @ rest)"
    by simp
  with IH show ?case by simp
qed

lemma matchesOf_no_match:
  assumes "rest = [] \<or> hd rest \<noteq> c" and "isLineTerminator c \<or> k < 2"
  shows "matchesOf matchCharRun (replicate (Suc k) c @ rest) = matchesOf matchCharRun rest"
  using assms(2)
proof (induction k)
  case 0
  then show ?case using assms(1) matchCharRun_run [OF assms(1), of 0] by simp
next
  case (Suc k)
  then have "isLineTerminator c \<or> k < 2" by auto
  with Suc.IH have IH: "matchesOf matchCharRun (replicate (Suc k) c @ rest) =
           matchesOf matchCharRun rest" by simp
  have "matchCharRun (c # replicate (Suc k) c @ rest) = None"
    using matchCharRun_run [OF assms(1), of "Suc k"] Suc.prems by auto
  then have "matchesOf matchCharRun (c # replicate (Suc k) c @ rest) =
        matchesOf matchCharRun (replicate (Suc k) c @ rest)"
    by simp
  with IH show ?case by simp
qed

lemma replaceMatches_runs:
  "replaceMatches matchCharRun f s =
     concat (map (\<lambda>run. if regexRun run then f (replicate (snd run) (fst run))
                         else replicate (snd run) (fst run)) (runs s))"
proof (induction s rule: runs.induct)
  case 1
  show ?case by simp
next
  case (2 c cs)
  let ?k = "length (takeWhile (\<lambda>d. d = c) cs)"
  let ?rest = "dropWhile (\<lambda>d. d = c) cs"
  have split: "c # cs = replicate (Suc ?k) c @ ?rest" by (rule run_split)
  have hd: "?rest = [] \<or> hd ?rest \<noteq> c" by (rule dropWhile_same_head)
  show ?case
  proof (cases "\<not> isLineTerminator c \<and> 2 \<le> ?k")
    case True
    then have m: "matchCharRun (c # cs) = Some (Suc ?k)"
      by (simp add: matchCharRun_def)
    have tk: "take ?k cs = replicate ?k c"
      using takeWhile_eq_take [of "\<lambda>d. d = c" cs] takeWhile_same [of c cs] by simp
    have dr: "drop ?k cs = ?rest"
      by (simp add: dropWhile_eq_drop)
    from True show ?thesis
      using "2.IH" by (simp add: m tk dr regexRun_def)
  next
    case False
    then have no: "isLineTerminator c \<or> ?k < 2" by auto
    have "replaceMatches matchCharRun f (replicate (Suc ?k) c @ ?rest) =
          replicate (Suc ?k) c @ replaceMatches matchCharRun f ?rest"
      by (rule replaceMatches_no_match [OF hd no])
    then have "replaceMatches matchCharRun f (c # cs) =
          replicate (Suc ?k) c @ replaceMatches matchCharRun f ?rest"
      by (simp only: split [symmetric])
    moreover have "\<not> regexRun (c, Suc ?k)"
      using False by (auto simp: regexRun_def)
    ultimately show ?thesis
      using "2.IH" by (simp del: replaceMatches.simps replicate_Suc)
  qed
qed

lemma matchesOf_runs:
  "matchesOf matchCharRun s =
     map (\<lambda>run. replicate (snd run) (fst run)) (filter regexRun (runs s))"
proof (induction s rule: runs.induct)
  case 1
  show ?case by simp
next
  case (2 c cs)
  let ?k = "length (takeWhile (\<lambda>d. d = c) cs)"
  let ?rest = "dropWhile (\<lambda>d. d = c) cs"
  have split: "c # cs = replicate (Suc ?k) c @ ?rest" by (rule run_split)
  have hd: "?rest = [] \<or> hd ?rest \<noteq> c" by (rule dropWhile_same_head)
  show ?case
  proof (cases "\<not> isLineTerminator c \<and> 2 \<le> ?k")
    case True
    then have m: "matchCharRun (c # cs) = Some (Suc ?k)"
      by (simp add: matchCharRun_def)
    have tk: "take ?k cs = replicate ?k c"
      using takeWhile_eq_take [of "\<lambda>d. d = c" cs] takeWhile_same [of c cs] by simp
    have dr: "drop ?k cs = ?rest"
      by (simp add: dropWhile_eq_drop)
    from True show ?thesis
      using "2.IH" by (simp add: m tk dr regexRun_def)
  next
    case False
    then have no: "isLineTerminator c \<or> ?k < 2" by auto
    have "matchesOf matchCharRun (replicate (Suc ?k) c @ ?rest) = matchesOf matchCharRun ?rest"
      by (rule matchesOf_no_match [OF hd no])
    then have "matchesOf matchCharRun (c # cs) = matchesOf matchCharRun ?rest"
      by (simp only: split [symmetric])
    moreover have "\<not> regexRun (c, Suc ?k)"
      using False by (auto simp: regexRun_def)
    ultimately show ?thesis
      using "2.IH" by (simp del: matchesOf.simps replicate_Suc)
  qed
qed

lemma runs_concat: "concat (map (\<lambda>run. replicate (snd run) (fst run)) (runs s)) = s"
proof (induction s rule: runs.induct)
  case 1
  show ?case by simp
next
  case (2 c cs)
  have "replicate (Suc (length (takeWhile (\<lambda>d. d = c) cs))) c @ dropWhile (\<lambda>d. d = c) cs = c # cs"
    by (rule run_split [symmetric])
  with "2.IH" show ?case by (simp del: replicate_Suc)
qed

lemma charScan_mono: "fst acc \<le> fst (foldl (charScanStep opts) acc ms)"
proof (induction ms arbitrary: acc)
  case Nil
  show ?case by simp
next
  case (Cons m ms)
  have "fst acc \<le> fst (charScanStep opts acc m)"
    by (simp add: charScanStep_def)
  also have "\<dots> \<le> fst (foldl (charScanStep opts) (charScanStep opts acc m) ms)"
    by (rule Cons.IH)
  finally show ?case by simp
qed

lemma charScan_reaches:
  "m \<in> set ms \<Longrightarrow> minRepetitions opts \<le> int (length m) \<Longrightarrow>
   length m \<le> fst (foldl (charScanStep opts) acc ms)"
proof (induction ms arbitrary: acc)
  case Nil
  then show ?case by simp
next
  case (Cons x ms)
  show ?case
  proof (cases "m = x")
    case True
    with Cons.prems have "length m \<le> fst (charScanStep opts acc x)"
      by (simp add: charScanStep_def)
    also have "\<dots> \<le> fst (foldl (charScanStep opts) (charScanStep opts acc x) ms)"
      by (rule charScan_mono)
    finally show ?thesis by simp
  next
    case False
    with Cons.prems have "m \<in> set ms" by simp
    from Cons.IH [OF this Cons.prems(2)] show ?thesis by simp
  qed
qed

lemma collapse_render:
  "(if regexRun run then collapseRun opts (replicate (snd run) (fst run))
    else replicate (snd run) (fst run)) = renderRun opts run"
proof (cases "regexRun run")
  case True
  then have "3 \<le> snd run" by (simp add: regexRun_def)
  then obtain k where k: "snd run = Suc k" by (cases "snd run") auto
  with True show ?thesis
    by (simp add: collapseRun_def renderRun_def collapsible_def regexRun_def)
next
  case False
  then show ?thesis
    by (auto simp: renderRun_def collapsible_def regexRun_def)
qed

text \<open>
  C6, as the code has it. If the text has a maximal run of equal consecutive characters (of
  a character that is no line terminator) of length at least 3 and at least
  \<^verbatim>\<open>minRepetitions\<close>, the character pass marks the result as spam and collapses to
  exactly two characters every such run, that is every run of length at least 3 and at
  least \<^verbatim>\<open>minRepetitions\<close>; every other run, the runs of length 3 or more that are
  shorter than \<^verbatim>\<open>minRepetitions\<close> among them, is left as it is.
\<close>

theorem cleanRepeatedChars_collapses:
  assumes "list_ex (collapsible opts) (runs subject)"
  shows "wasSpam (cleanRepeatedChars opts subject) \<and>
         cleaned (cleanRepeatedChars opts subject) = concat (map (renderRun opts) (runs subject))"
proof -
  from assms obtain run where run: "run \<in> set (runs subject)" and c: "collapsible opts run"
    by (auto simp: list_ex_iff)
  let ?m = "replicate (snd run) (fst run)"
  let ?ms = "matchesOf matchCharRun subject"
  from c have rr: "regexRun run" and mr: "minRepetitions opts \<le> int (length ?m)"
    by (simp_all add: collapsible_def regexRun_def)
  from run rr have mem: "?m \<in> set ?ms"
    by (auto simp: matchesOf_runs)
  then have ne: "?ms \<noteq> []" by auto
  have "length ?m \<le> fst (foldl (charScanStep opts) (0, []) ?ms)"
    by (rule charScan_reaches [OF mem mr])
  with mr have big: "minRepetitions opts \<le> int (fst (foldl (charScanStep opts) (0, []) ?ms))"
    by linarith
  have "replaceMatches matchCharRun (collapseRun opts) subject =
        concat (map (renderRun opts) (runs subject))"
    by (simp add: replaceMatches_runs collapse_render)
  with ne big show ?thesis
    by (simp add: cleanRepeatedChars_def createResult_def Let_def)
qed

theorem cleanRepeatedChars_collapses_witness:
  "wasSpam (cleanRepeatedChars (defaultCleanerOptions\<lparr>minRepetitions := 4\<rparr>) ''aaa bbbbb cc'') \<and>
   cleaned (cleanRepeatedChars (defaultCleanerOptions\<lparr>minRepetitions := 4\<rparr>) ''aaa bbbbb cc'') =
     ''aaa bb cc''"
proof -
  let ?o = "defaultCleanerOptions\<lparr>minRepetitions := 4\<rparr>"
  have h: "list_ex (collapsible ?o) (runs ''aaa bbbbb cc'')" by code_simp
  have r: "concat (map (renderRun ?o) (runs ''aaa bbbbb cc'')) = ''aaa bb cc''" by code_simp
  from cleanRepeatedChars_collapses [OF h] show ?thesis
    unfolding r .
qed

text \<open>
  The claim as the spec words it, with every run of length 3 or more collapsed once one run
  reaches \<^verbatim>\<open>minRepetitions\<close>, fails: with \<^verbatim>\<open>minRepetitions = 5\<close> the run of five
  marks the text as spam and is collapsed, and the run of three stays.
\<close>

theorem cleanRepeatedChars_short_runs_counterexample:
  "runs ''aaa bbbbb'' = [(CHR ''a'', 3), (CHR '' '', 1), (CHR ''b'', 5)] \<and>
   wasSpam (cleanRepeatedChars (defaultCleanerOptions\<lparr>minRepetitions := 5\<rparr>) ''aaa bbbbb'') \<and>
   cleaned (cleanRepeatedChars (defaultCleanerOptions\<lparr>minRepetitions := 5\<rparr>) ''aaa bbbbb'') =
     ''aaa bb''"
  by code_simp

subsection \<open>Truncation\<close>

text \<open>A message that is empty after trimming would leave the three passes with the empty
  text (\<^verbatim>\<open>clean\<close> returns before them).\<close>

lemma cleanUrls_Nil: "cleanUrls [] = []"
  by (simp add: cleanUrls_def trim_def)

lemma cleanRepeatedChars_Nil: "cleaned (cleanRepeatedChars opts []) = []"
  by (simp add: cleanRepeatedChars_def createResult_def)

lemma splitWords_Nil: "splitWords [] = [[]]"
  by (subst splitWords.simps) simp

lemma joinWords_blank: "length ws \<le> 1 \<Longrightarrow> set ws \<subseteq> {[]} \<Longrightarrow> joinWords ws = []"
  by (cases ws rule: joinWords.cases) auto

lemma joinWords_slice_blank: "joinWords (slice [[]] a b) = []"
proof (rule joinWords_blank)
  show "length (slice [[]] a b) \<le> 1" by (simp add: slice_def)
  have "set (take (b - a) (drop a [[]])) \<subseteq> set (drop a [[]])" by (rule set_take_subset)
  also have "\<dots> \<subseteq> set [[]]" by (rule set_drop_subset)
  finally show "set (slice [[]] a b) \<subseteq> {[]}" by (simp add: slice_def)
qed

lemma joinWords_drop_blank: "joinWords (drop n [[]]) = []"
  by (rule joinWords_blank) (auto dest: in_set_dropD)

lemma phraseScan_blank: "cleaned (phraseScan opts [] [[]] k i) = []"
proof (induction opts "[] :: string" "[[]] :: string list" k i rule: phraseScan.induct)
  case (1 opts k i)
  show ?case
    apply (subst phraseScan.simps)
    apply (simp add: Let_def createResult_def joinWords_slice_blank joinWords_drop_blank trim_def)
    using 1 apply (simp add: Let_def joinWords_slice_blank)
    done
qed

lemma findAndClean_blank: "cleaned (findAndCleanRepeatedPhrase opts [] k) = []"
  by (simp add: findAndCleanRepeatedPhrase_def splitWords_Nil createResult_def phraseScan_blank)

lemma phraseLengths_blank: "cleaned (phraseLengths opts [] k) = []"
  by (induction k) (simp_all add: createResult_def Let_def findAndClean_blank)

lemma cleanRepeatedPhrases_Nil: "cleaned (cleanRepeatedPhrases opts []) = []"
  by (simp add: cleanRepeatedPhrases_def phraseLengths_blank)

lemma countRepetitions_blank: "countRepetitions opts [[]] 0 (Suc 0) = Suc 0"
  by (subst countRepetitions.simps) simp

lemma wordsLoop_done: "wordsLoop opts [[]] (Suc 0) acc = acc"
  by (subst wordsLoop.simps) simp

lemma wordsLoop_blank: "fst (wordsLoop opts [[]] 0 ([], 0, [])) = [[]]"
  by (subst wordsLoop.simps) (simp add: Let_def countRepetitions_blank wordsLoop_done slice_def)

lemma cleanRepeatedWords_Nil: "cleaned (cleanRepeatedWords opts []) = []"
  by (simp add: cleanRepeatedWords_def splitWords_Nil createResult_def Let_def wordsLoop_blank)

lemma currentText_applyPass:
  "currentText (applyPass result st) = (if wasSpam result then cleaned result else currentText st)"
  by (simp add: applyPass_def)

lemma passes_blank: "trim message = [] \<Longrightarrow> currentText (passes opts message) = []"
  by (simp add: passes_def Let_def currentText_applyPass cleanUrls_Nil cleanRepeatedChars_Nil
      cleanRepeatedPhrases_Nil cleanRepeatedWords_Nil)

text \<open>
  C8. For every message whose text after the three passes is longer than \<^verbatim>\<open>maxLength\<close>,
  with \<^verbatim>\<open>maxLength\<close> at least 3, the cleaned text that \<^verbatim>\<open>clean\<close> returns has length
  exactly \<^verbatim>\<open>maxLength\<close> and ends with the three dots: it is the first
  \<^verbatim>\<open>maxLength - 3\<close> characters of that text and the dots.
\<close>

theorem clean_truncates:
  assumes "3 \<le> maxLength opts"
    and "maxLength opts < int (length (currentText (passes opts message)))"
  shows "length (cleaned (clean opts message)) = nat (maxLength opts) \<and>
         suffix ''...'' (cleaned (clean opts message)) \<and>
         cleaned (clean opts message) =
           take (nat (maxLength opts - 3)) (currentText (passes opts message)) @ ''...''"
proof -
  let ?t = "currentText (passes opts message)"
  have ne: "trim message \<noteq> []"
  proof
    assume "trim message = []"
    then have "?t = []" by (rule passes_blank)
    with assms show False by simp
  qed
  have c: "cleaned (clean opts message) = take (nat (maxLength opts - 3)) ?t @ ''...''"
    using ne assms(2) by (simp add: clean_def createResult_def truncateText_def Let_def)
  have "nat (maxLength opts - 3) \<le> length ?t"
    using assms by linarith
  then have "length (take (nat (maxLength opts - 3)) ?t @ ''...'') = nat (maxLength opts)"
    using assms(1) by simp
  with c show ?thesis by (simp add: suffix_def)
qed

theorem clean_truncates_witness:
  "cleaned (clean (defaultCleanerOptions\<lparr>maxLength := 5\<rparr>) ''hello world'') = ''he...'' \<and>
   length (cleaned (clean (defaultCleanerOptions\<lparr>maxLength := 5\<rparr>) ''hello world'')) = 5"
proof -
  let ?o = "defaultCleanerOptions\<lparr>maxLength := 5\<rparr>"
  have h2: "3 \<le> maxLength ?o" by simp
  have p: "currentText (passes ?o ''hello world'') = ''hello world''" by code_simp
  have h3: "maxLength ?o < int (length (currentText (passes ?o ''hello world'')))"
    by (simp add: p)
  from clean_truncates [OF h2 h3] show ?thesis
    by (simp add: p)
qed

end
